theory Spec2Isabelle
  imports Complex_Main "HOL-Library.AList"
begin

section \<open>Python decimal arithmetic used by the finance models\<close>

text \<open>
  \<^verbatim>\<open>app/models/finance.py\<close> computes with \<^verbatim>\<open>decimal.Decimal\<close> under the default
  context: precision 28, rounding \<^verbatim>\<open>ROUND_HALF_EVEN\<close>.  A finite decimal is the triple
  (\<^verbatim>\<open>_sign\<close>, \<^verbatim>\<open>_int\<close>, \<^verbatim>\<open>_exp\<close>) with value \<open>(-1)^sign * int * 10^exp\<close>.
  NaN and infinities are outside the model, and so are the exponent limits
  \<open>Emax = 999999\<close> and \<open>Emin = -999999\<close> of the context: the operations below are those
  of Python for operands and results whose exponents stay within these limits, where the
  context neither clamps an exponent, nor rounds to a subnormal, nor signals Overflow.
  The amounts of the models are \<^verbatim>\<open>Numeric(12, 2)\<close> and \<^verbatim>\<open>Numeric(10, 6)\<close> columns and the
  counts are \<^verbatim>\<open>Integer\<close> columns; the theorems below that give or bound the result of a
  sum, a quotient or a product take its operands from these column types.
\<close>

datatype decimal = Decimal (d_sign: bool) (d_int: nat) (d_exp: int)

text \<open>
  The exceptions that reach the models: two signals of the decimal context, and the two
  errors of the database driver for a value that does not fit its column and for a
  violated constraint.
\<close>

datatype py_error = DivisionByZero | InvalidOperation | DataError | IntegrityError

definition prec :: nat where
  "prec = 28"

text \<open>\<^verbatim>\<open>len(self._int)\<close>: the number of decimal digits of the coefficient.\<close>

fun ndigits :: "nat \<Rightarrow> nat" where
  "ndigits n = (if n < 10 then 1 else Suc (ndigits (n div 10)))"

declare ndigits.simps [simp del]

definition pow10 :: "int \<Rightarrow> rat" where
  "pow10 e = (if 0 \<le> e then 10 ^ nat e else 1 / 10 ^ nat (- e))"

definition dec_val :: "decimal \<Rightarrow> rat" where
  "dec_val d = (if d_sign d then - 1 else 1) * of_nat (d_int d) * pow10 (d_exp d)"

text \<open>\<^verbatim>\<open>Decimal(n)\<close> for a Python int, and \<^verbatim>\<open>Decimal('0')\<close>.\<close>

definition dec_of_int :: "int \<Rightarrow> decimal" where
  "dec_of_int i = Decimal (i < 0) (nat \<bar>i\<bar>) 0"

definition dec_zero :: decimal where
  "dec_zero = Decimal False 0 0"

text \<open>\<^verbatim>\<open>bool(d)\<close>: a decimal is falsy exactly when it is zero.\<close>

definition dec_truthy :: "decimal \<Rightarrow> bool" where
  "dec_truthy d = (d_int d \<noteq> 0)"

text \<open>
  \<^verbatim>\<open>Decimal._fix\<close> within the exponent limits: a coefficient of more than \<open>prec\<close>
  digits keeps its leading \<open>prec\<close> digits, rounded half-even on the discarded ones; a
  carry to \<open>prec + 1\<close> digits drops the final zero.  The branches of \<^verbatim>\<open>_fix\<close> for an
  exponent below \<^verbatim>\<open>Etiny\<close> or above \<^verbatim>\<open>Etop\<close> are not part of the definition.
\<close>

definition dec_fix :: "decimal \<Rightarrow> decimal" where
  "dec_fix d =
     (let c = d_int d; e = d_exp d in
      if c = 0 then d
      else if ndigits c \<le> prec then d
      else
        let k = ndigits c - prec;
            q = c div 10 ^ k;
            r = c mod 10 ^ k;
            q' = (if 10 ^ k < 2 * r \<or> (2 * r = 10 ^ k \<and> odd q) then q + 1 else q)
        in if prec < ndigits q' then Decimal (d_sign d) (q' div 10) (e + int k + 1)
           else Decimal (d_sign d) q' (e + int k))"

text \<open>\<^verbatim>\<open>Decimal.__mul__\<close>: exact product of the coefficients, sum of the exponents, then \<^verbatim>\<open>_fix\<close>.\<close>

definition dec_mul :: "decimal \<Rightarrow> decimal \<Rightarrow> decimal" where
  "dec_mul a b = dec_fix (Decimal (d_sign a \<noteq> d_sign b) (d_int a * d_int b) (d_exp a + d_exp b))"

text \<open>
  \<^verbatim>\<open>Decimal.__add__\<close>: the exact sum at the smaller exponent, then \<^verbatim>\<open>_fix\<close>.  The sum of
  two zeros is negative only when both are; equal and opposite operands give \<open>+0\<close>.
\<close>

definition dec_signed :: "decimal \<Rightarrow> int" where
  "dec_signed d = (if d_sign d then - int (d_int d) else int (d_int d))"

definition dec_add :: "decimal \<Rightarrow> decimal \<Rightarrow> decimal" where
  "dec_add a b =
     (let e = min (d_exp a) (d_exp b) in
      if d_int a = 0 \<and> d_int b = 0 then dec_fix (Decimal (d_sign a \<and> d_sign b) 0 e)
      else
        let s = dec_signed a * 10 ^ nat (d_exp a - e) + dec_signed b * 10 ^ nat (d_exp b - e)
        in dec_fix (Decimal (s < 0) (nat \<bar>s\<bar>) e))"

text \<open>
  \<^verbatim>\<open>Decimal.__truediv__\<close>.  The loop of the exact case strips trailing zeros while the
  exponent is below the ideal one.
\<close>

function strip_zeros :: "nat \<Rightarrow> int \<Rightarrow> int \<Rightarrow> nat \<times> int" where
  "strip_zeros coeff e ideal_exp =
     (if e < ideal_exp \<and> coeff mod 10 = 0 then strip_zeros (coeff div 10) (e + 1) ideal_exp
      else (coeff, e))"
  by pat_completeness auto
termination
  by (relation "measure (\<lambda>(coeff, e, ideal_exp). nat (ideal_exp - e))") auto

declare strip_zeros.simps [simp del]

definition dec_div :: "decimal \<Rightarrow> decimal \<Rightarrow> py_error + decimal" where
  "dec_div a b =
     (let sign = (d_sign a \<noteq> d_sign b) in
      if d_int b = 0 then (if d_int a = 0 then Inl InvalidOperation else Inl DivisionByZero)
      else if d_int a = 0 then Inr (dec_fix (Decimal sign 0 (d_exp a - d_exp b)))
      else
        let shift = int (ndigits (d_int b)) - int (ndigits (d_int a)) + int prec + 1;
            e = d_exp a - d_exp b - shift;
            n = (if 0 \<le> shift then d_int a * 10 ^ nat shift else d_int a);
            m = (if 0 \<le> shift then d_int b else d_int b * 10 ^ nat (- shift));
            coeff = n div m;
            remainder = n mod m
        in if remainder \<noteq> 0
           then Inr (dec_fix (Decimal sign (if coeff mod 5 = 0 then coeff + 1 else coeff) e))
           else (case strip_zeros coeff e (d_exp a - d_exp b) of
                   (coeff', e') \<Rightarrow> Inr (dec_fix (Decimal sign coeff' e'))))"

text \<open>Comparisons of decimals are exact comparisons of their values.\<close>

definition dec_le :: "decimal \<Rightarrow> decimal \<Rightarrow> bool" where
  "dec_le a b = (dec_val a \<le> dec_val b)"

definition dec_pos :: "decimal \<Rightarrow> bool" where
  "dec_pos a = (0 < dec_val a)"

section \<open>Invoices\<close>

datatype InvoiceStatusEnum = UNPAID | PARTIAL | PAID | OVERDUE | CANCELLED

text \<open>
  One entry of \<^verbatim>\<open>details['late_fees']\<close>.  The source stores \<^verbatim>\<open>float(fee_amount)\<close>; the
  conversion to a binary float is a parameter \<open>float_of\<close> of the operations below, and
  \<open>'f\<close> is the type of its results.
\<close>

record 'f late_fee =
  lf_amount :: 'f
  lf_date :: string
  lf_reason :: string

text \<open>
  The JSON column \<^verbatim>\<open>details\<close>: the list under the key \<^verbatim>\<open>'late_fees'\<close> when the key is
  present, and the other keys (the breakdown of charges) kept apart.
\<close>

record 'f details =
  late_fees :: "'f late_fee list option"
  charges :: "(string \<times> string) list"

text \<open>
  A row of \<^verbatim>\<open>invoices\<close>, its columns read at their declared types: the two amounts are
  decimals (\<^verbatim>\<open>amount_paid\<close> defaults to 0), the status is one of the five values.  Dates are
  day ordinals (\<^verbatim>\<open>date.toordinal()\<close>).
\<close>

record 'f invoice =
  inv_unit_id :: int
  inv_period :: int
  amount_due :: decimal
  amount_paid :: decimal
  due_date :: int
  status :: InvoiceStatusEnum
  details :: "'f details option"
  invoice_number :: string

text \<open>\<^verbatim>\<open>Invoice.is_overdue\<close>; \<open>today\<close> is \<^verbatim>\<open>date.today()\<close>.\<close>

definition is_overdue :: "int \<Rightarrow> 'f invoice \<Rightarrow> bool" where
  "is_overdue today self = (due_date self < today \<and> status self \<notin> set [PAID, CANCELLED])"

text \<open>\<^verbatim>\<open>Invoice.update_status\<close>.\<close>

definition update_status :: "int \<Rightarrow> 'f invoice \<Rightarrow> 'f invoice" where
  "update_status today self =
     (if dec_le (amount_due self) (amount_paid self) then self\<lparr>status := PAID\<rparr>
      else if dec_pos (amount_paid self) then self\<lparr>status := PARTIAL\<rparr>
      else if is_overdue today self then self\<lparr>status := OVERDUE\<rparr>
      else self\<lparr>status := UNPAID\<rparr>)"

text \<open>
  \<^verbatim>\<open>Invoice.add_late_fee\<close>, with the invoice as the commit that ends the method leaves it.
  \<open>fee_amount\<close> is the decimal \<^verbatim>\<open>Decimal(str(fee_amount))\<close>, \<open>float_of\<close> gives
  \<^verbatim>\<open>float(fee_amount)\<close> and \<open>now\<close> is \<^verbatim>\<open>datetime.utcnow().isoformat()\<close>.  An absent or
  empty \<^verbatim>\<open>details\<close> is replaced by a new dictionary, which is assigned to the attribute
  and so written with the entry.  A \<^verbatim>\<open>details\<close> that is not empty is changed in place
  only: the column is a plain \<^verbatim>\<open>JSONB\<close>, whose in-place changes the session does not
  detect, so the commit writes \<^verbatim>\<open>amount_due\<close> alone and the stored \<^verbatim>\<open>details\<close> stay as
  they were.  \<^verbatim>\<open>amount_due\<close> is the decimal that the method assigns; the column keeps it
  as it is when it has two decimal places and is below \<open>10^10\<close>.
\<close>

definition add_late_fee :: "(decimal \<Rightarrow> 'f) \<Rightarrow> string \<Rightarrow> decimal \<Rightarrow> 'f invoice \<Rightarrow> 'f invoice" where
  "add_late_fee float_of now fee_amount self =
     (let due = dec_add (amount_due self) fee_amount;
          entry = \<lparr>lf_amount = float_of fee_amount, lf_date = now,
                   lf_reason = ''Late payment fee''\<rparr>;
          empty = (case details self of
                     None \<Rightarrow> True
                   | Some d \<Rightarrow> late_fees d = None \<and> charges d = [])
      in if empty
         then self\<lparr>amount_due := due,
                details := Some \<lparr>late_fees = Some [entry], charges = []\<rparr>\<rparr>
         else self\<lparr>amount_due := due\<rparr>)"

section \<open>Payments\<close>

text \<open>The payment holds its invoice (the relationship \<^verbatim>\<open>Payment.invoice\<close>), if any.\<close>

record 'f payment =
  pay_unit_id :: int
  pay_invoice :: "'f invoice option"
  pay_amount :: decimal
  is_confirmed :: bool

text \<open>\<^verbatim>\<open>Payment.apply_to_invoice\<close>: the returned flag and the payment with its updated invoice.\<close>

definition apply_to_invoice :: "int \<Rightarrow> 'f payment \<Rightarrow> bool \<times> 'f payment" where
  "apply_to_invoice today self =
     (case pay_invoice self of
        Some i \<Rightarrow>
          if is_confirmed self
          then (True, self\<lparr>pay_invoice :=
                  Some (update_status today
                          (i\<lparr>amount_paid := dec_add (amount_paid i) (pay_amount self)\<rparr>))\<rparr>)
          else (False, self)
      | None \<Rightarrow> (False, self))"

section \<open>Units, categories and the allocation of expenses\<close>

datatype AllocationMethodEnum = SHARES | PER_UNIT | PER_PERSON | METERED | CUSTOM

fun method_value :: "AllocationMethodEnum \<Rightarrow> string" where
  "method_value SHARES = ''shares''"
| "method_value PER_UNIT = ''per_unit''"
| "method_value PER_PERSON = ''per_person''"
| "method_value METERED = ''metered''"
| "method_value CUSTOM = ''custom''"

text \<open>A row of \<^verbatim>\<open>units\<close>; \<^verbatim>\<open>shares\<close> and \<^verbatim>\<open>occupancy_count\<close> are nullable columns.\<close>

record Unit =
  unit_id :: int
  unit_building_id :: int
  shares :: "decimal option"
  occupancy_count :: "int option"
  is_active :: bool

record ExpenseCategory =
  cat_id :: int
  cat_building_id :: int
  code :: string
  allocation_method :: AllocationMethodEnum

text \<open>\<^verbatim>\<open>Unit.query.filter_by(building_id=self.building_id, is_active=True).all()\<close> over the table of units.\<close>

definition active_units :: "Unit list \<Rightarrow> int \<Rightarrow> Unit list" where
  "active_units table b = filter (\<lambda>u. unit_building_id u = b \<and> is_active u) table"

text \<open>\<^verbatim>\<open>unit.shares or Decimal('0')\<close> and \<^verbatim>\<open>unit.occupancy_count or 0\<close>.\<close>

definition shares_or_zero :: "Unit \<Rightarrow> decimal" where
  "shares_or_zero u =
     (case shares u of None \<Rightarrow> dec_zero | Some s \<Rightarrow> if dec_truthy s then s else dec_zero)"

definition occupancy_or_zero :: "Unit \<Rightarrow> int" where
  "occupancy_or_zero u = (case occupancy_count u of None \<Rightarrow> 0 | Some n \<Rightarrow> n)"

text \<open>
  \<^verbatim>\<open>sum(...)\<close> over decimals: the additions run from the left, starting at \<open>0\<close>.
\<close>

definition dec_sum :: "decimal list \<Rightarrow> decimal" where
  "dec_sum xs = foldl dec_add dec_zero xs"

text \<open>
  The dictionary \<^verbatim>\<open>allocations\<close> is an association list in insertion order;
  \<^verbatim>\<open>allocations[unit.id] = v\<close> is \<^const>\<open>AList.update\<close>.  The three loops of
  \<^verbatim>\<open>calculate_allocations\<close> that compute an amount per unit:
\<close>

fun shares_loop ::
  "decimal \<Rightarrow> decimal \<Rightarrow> Unit list \<Rightarrow> (int \<times> decimal) list \<Rightarrow> py_error + (int \<times> decimal) list" where
  "shares_loop total_shares total_amount [] allocations = Inr allocations"
| "shares_loop total_shares total_amount (u # us) allocations =
     (case shares u of
        None \<Rightarrow>
          shares_loop total_shares total_amount us (AList.update (unit_id u) dec_zero allocations)
      | Some s \<Rightarrow>
          if dec_truthy s
          then (case dec_div s total_shares of
                  Inl err \<Rightarrow> Inl err
                | Inr w \<Rightarrow>
                    shares_loop total_shares total_amount us
                      (AList.update (unit_id u) (dec_mul w total_amount) allocations))
          else shares_loop total_shares total_amount us
                 (AList.update (unit_id u) dec_zero allocations))"

definition assign_all :: "(Unit \<Rightarrow> decimal) \<Rightarrow> Unit list \<Rightarrow> (int \<times> decimal) list \<Rightarrow> (int \<times> decimal) list" where
  "assign_all f units allocations = fold (\<lambda>u al. AList.update (unit_id u) (f u) al) units allocations"

text \<open>
  \<^verbatim>\<open>ExpenseCategory.calculate_allocations\<close>; \<open>table\<close> is the table of units and
  \<open>total_amount\<close> the decimal \<^verbatim>\<open>Decimal(str(total_amount))\<close>.
\<close>

definition calculate_allocations ::
  "Unit list \<Rightarrow> ExpenseCategory \<Rightarrow> decimal \<Rightarrow> py_error + (int \<times> decimal) list" where
  "calculate_allocations table self total_amount =
     (let units = active_units table (cat_building_id self) in
      if allocation_method self = SHARES then
        (let total_shares = dec_sum (map shares_or_zero units) in
         if dec_pos total_shares then shares_loop total_shares total_amount units []
         else Inr [])
      else if allocation_method self = PER_UNIT then
        (if units \<noteq> [] then
           (case dec_div total_amount (dec_of_int (int (length units))) of
              Inl err \<Rightarrow> Inl err
            | Inr amount_per_unit \<Rightarrow> Inr (assign_all (\<lambda>u. amount_per_unit) units []))
         else Inr [])
      else if allocation_method self = PER_PERSON then
        (let total_occupants = sum_list (map occupancy_or_zero units) in
         if 0 < total_occupants then
           (case dec_div total_amount (dec_of_int total_occupants) of
              Inl err \<Rightarrow> Inl err
            | Inr amount_per_person \<Rightarrow>
                Inr (assign_all (\<lambda>u. dec_mul amount_per_person (dec_of_int (occupancy_or_zero u)))
                       units []))
         else Inr [])
      else if allocation_method self = METERED then Inr (assign_all (\<lambda>u. dec_zero) units [])
      else Inr (assign_all (\<lambda>u. dec_zero) units []))"

section \<open>Expenses\<close>

record Expense =
  exp_id :: int
  exp_building_id :: int
  category :: ExpenseCategory
  exp_period :: int
  amount_total :: decimal
  is_allocated :: bool
  is_invoiced :: bool

record 'f formula_snapshot =
  fs_method :: string
  fs_total_amount :: 'f
  fs_calculation_date :: string

record 'f ExpenseAllocation =
  ea_expense_id :: int
  ea_unit_id :: int
  ea_amount :: decimal
  formula_snapshot :: "'f formula_snapshot"

text \<open>
  The column \<^verbatim>\<open>amount\<close> of an allocation is \<^verbatim>\<open>Numeric(12, 2)\<close> with the constraint
  \<^verbatim>\<open>amount >= 0\<close>.  The database rounds a value to two decimal places, ties away from
  zero, and has no negative zero.
\<close>

definition numeric_round :: "decimal \<Rightarrow> decimal" where
  "numeric_round a =
     (let c = (if - 2 \<le> d_exp a then d_int a * 10 ^ nat (d_exp a + 2)
               else
                 let k = nat (- 2 - d_exp a);
                     q = d_int a div 10 ^ k;
                     r = d_int a mod 10 ^ k
                 in if 10 ^ k \<le> 2 * r then q + 1 else q)
      in Decimal (d_sign a \<and> c \<noteq> 0) c (- 2))"

text \<open>
  What the insert stores for an amount: the rounded value, unless it has more than ten
  digits before the decimal point (\<^verbatim>\<open>numeric field overflow\<close>) or is negative
  (\<^verbatim>\<open>check_positive_allocation\<close>).
\<close>

definition store_amount :: "decimal \<Rightarrow> py_error + decimal" where
  "store_amount a =
     (let v = numeric_round a in
      if 10 ^ 12 \<le> d_int v then Inl DataError
      else if d_sign v then Inl IntegrityError
      else Inr v)"

text \<open>
  The loop of \<^verbatim>\<open>generate_allocations\<close> over the entries of the dictionary, in its order:
  each \<^verbatim>\<open>allocation.save()\<close> inserts and commits one row, with the amount as the column
  stores it; a second row for the same expense and unit violates
  \<^verbatim>\<open>unique_allocation_per_unit\<close>.  \<open>rows\<close> is the table of allocations and \<open>clock n\<close> the
  value of \<^verbatim>\<open>datetime.utcnow().isoformat()\<close> at the \<open>n\<close>-th row.  The first error ends the
  loop and is the result.
\<close>

fun save_allocations ::
  "(decimal \<Rightarrow> 'f) \<Rightarrow> (nat \<Rightarrow> string) \<Rightarrow> Expense \<Rightarrow> nat \<Rightarrow> (int \<times> decimal) list \<Rightarrow>
     'f ExpenseAllocation list \<Rightarrow> py_error + 'f ExpenseAllocation list" where
  "save_allocations float_of clock self n [] rows = Inr rows"
| "save_allocations float_of clock self n ((uid, amount) # items) rows =
     (case store_amount amount of
        Inl err \<Rightarrow> Inl err
      | Inr stored \<Rightarrow>
          if list_ex (\<lambda>r. ea_expense_id r = exp_id self \<and> ea_unit_id r = uid) rows
          then Inl IntegrityError
          else save_allocations float_of clock self (Suc n) items
                 (rows @
                  [\<lparr>ea_expense_id = exp_id self, ea_unit_id = uid, ea_amount = stored,
                     formula_snapshot =
                       \<lparr>fs_method = method_value (allocation_method (category self)),
                         fs_total_amount = float_of (amount_total self),
                         fs_calculation_date = clock n\<rparr>\<rparr>]))"

text \<open>
  \<^verbatim>\<open>Expense.generate_allocations\<close>: the returned flag, the expense and the table of
  allocation rows afterwards, or the exception that ends the call.
\<close>

definition generate_allocations ::
  "(decimal \<Rightarrow> 'f) \<Rightarrow> (nat \<Rightarrow> string) \<Rightarrow> Unit list \<Rightarrow> 'f ExpenseAllocation list \<Rightarrow> Expense \<Rightarrow>
     py_error + (bool \<times> Expense \<times> 'f ExpenseAllocation list)" where
  "generate_allocations float_of clock table rows self =
     (if is_allocated self then Inr (False, self, rows)
      else
        (case calculate_allocations table (category self) (amount_total self) of
           Inl err \<Rightarrow> Inl err
         | Inr allocations \<Rightarrow>
             (case save_allocations float_of clock self 0 allocations rows of
                Inl err \<Rightarrow> Inl err
              | Inr rows' \<Rightarrow> Inr (True, self\<lparr>is_allocated := True\<rparr>, rows'))))"

section \<open>The allocation in closed form\<close>

text \<open>The quotient that \<^const>\<open>dec_div\<close> returns when it does not raise.\<close>

definition dec_quot :: "decimal \<Rightarrow> decimal \<Rightarrow> decimal" where
  "dec_quot a b = (case dec_div a b of Inl err \<Rightarrow> dec_zero | Inr q \<Rightarrow> q)"

text \<open>The amount that the SHARES loop stores for one unit.\<close>

definition share_amount :: "decimal \<Rightarrow> decimal \<Rightarrow> Unit \<Rightarrow> decimal" where
  "share_amount total_shares total_amount u =
     (case shares u of
        None \<Rightarrow> dec_zero
      | Some s \<Rightarrow> if dec_truthy s then dec_mul (dec_quot s total_shares) total_amount else dec_zero)"

text \<open>
  The guards of \<^verbatim>\<open>calculate_allocations\<close>: the denominator of the method is positive,
  that is the sum of the shares, the number of eligible units or the sum of the occupants;
  METERED and CUSTOM have no guard.
\<close>

definition denominator_positive :: "Unit list \<Rightarrow> ExpenseCategory \<Rightarrow> bool" where
  "denominator_positive table self =
     (if allocation_method self = SHARES
      then dec_pos (dec_sum (map shares_or_zero (active_units table (cat_building_id self))))
      else if allocation_method self = PER_UNIT
      then active_units table (cat_building_id self) \<noteq> []
      else if allocation_method self = PER_PERSON
      then 0 < sum_list (map occupancy_or_zero (active_units table (cat_building_id self)))
      else True)"

text \<open>The amount that \<^verbatim>\<open>calculate_allocations\<close> stores for one unit, by method.\<close>

definition unit_amount :: "Unit list \<Rightarrow> ExpenseCategory \<Rightarrow> decimal \<Rightarrow> Unit \<Rightarrow> decimal" where
  "unit_amount table self total_amount u =
     (let units = active_units table (cat_building_id self) in
      if allocation_method self = SHARES
      then share_amount (dec_sum (map shares_or_zero units)) total_amount u
      else if allocation_method self = PER_UNIT
      then dec_quot total_amount (dec_of_int (int (length units)))
      else if allocation_method self = PER_PERSON
      then dec_mul (dec_quot total_amount (dec_of_int (sum_list (map occupancy_or_zero units))))
             (dec_of_int (occupancy_or_zero u))
      else dec_zero)"

section \<open>Quantities of the rounding analysis\<close>

text \<open>
  The coefficient, at the exponent of its argument, of what \<^const>\<open>dec_fix\<close> returns: the
  argument's own coefficient when it has at most \<open>prec\<close> digits, otherwise the rounded
  leading digits followed by zeros.
\<close>

definition fix_coeff :: "nat \<Rightarrow> nat" where
  "fix_coeff c =
     (if c = 0 \<or> ndigits c \<le> prec then c
      else
        let k = ndigits c - prec;
            q = c div 10 ^ k;
            r = c mod 10 ^ k
        in (if 10 ^ k < 2 * r \<or> (2 * r = 10 ^ k \<and> odd q) then q + 1 else q) * 10 ^ k)"

text \<open>The sign of a decimal as a factor.\<close>

definition dec_sgn :: "decimal \<Rightarrow> rat" where
  "dec_sgn d = (if d_sign d then - 1 else 1)"

text \<open>
  The \<^verbatim>\<open>shift\<close> of \<^verbatim>\<open>__truediv__\<close> and the two integers it divides.
\<close>

definition div_shift :: "decimal \<Rightarrow> decimal \<Rightarrow> int" where
  "div_shift a b = int (ndigits (d_int b)) - int (ndigits (d_int a)) + int prec + 1"

definition div_num :: "decimal \<Rightarrow> decimal \<Rightarrow> nat" where
  "div_num a b = (if 0 \<le> div_shift a b then d_int a * 10 ^ nat (div_shift a b) else d_int a)"

definition div_den :: "decimal \<Rightarrow> decimal \<Rightarrow> nat" where
  "div_den a b = (if 0 \<le> div_shift a b then d_int b else d_int b * 10 ^ nat (- div_shift a b))"

text \<open>
  The proportional amount of a unit as the specification words it, in exact arithmetic:
  the total times the unit's shares over the sum of the shares, the total over the number
  of eligible units, the total times the unit's occupants over the sum of the occupants.
\<close>

definition exact_share :: "Unit list \<Rightarrow> ExpenseCategory \<Rightarrow> decimal \<Rightarrow> Unit \<Rightarrow> rat" where
  "exact_share table self total_amount u =
     (let units = active_units table (cat_building_id self) in
      if allocation_method self = SHARES
      then dec_val (shares_or_zero u) / sum_list (map (\<lambda>v. dec_val (shares_or_zero v)) units)
             * dec_val total_amount
      else if allocation_method self = PER_UNIT
      then dec_val total_amount / of_nat (length units)
      else if allocation_method self = PER_PERSON
      then dec_val total_amount / of_int (sum_list (map occupancy_or_zero units))
             * of_int (occupancy_or_zero u)
      else 0)"

text \<open>The exact sum of the amounts of a mapping.\<close>

definition amounts_sum :: "(int \<times> decimal) list \<Rightarrow> rat" where
  "amounts_sum al = sum_list (map (\<lambda>(k, v). dec_val v) al)"

text \<open>
  A non-negative value of the column \<^verbatim>\<open>shares\<close>, \<^verbatim>\<open>Numeric(10, 6)\<close>, and the column types
  and constraints of the table \<^verbatim>\<open>units\<close> on a row: \<^verbatim>\<open>shares\<close> is missing or such a value,
  \<^verbatim>\<open>occupancy_count\<close> is missing or a non-negative \<^verbatim>\<open>Integer\<close>.
\<close>

definition numeric_10_6 :: "decimal \<Rightarrow> bool" where
  "numeric_10_6 d = (\<not> d_sign d \<and> d_exp d = - 6 \<and> d_int d < 10 ^ 10)"

definition unit_columns_ok :: "Unit \<Rightarrow> bool" where
  "unit_columns_ok u =
     ((case shares u of None \<Rightarrow> True | Some s \<Rightarrow> numeric_10_6 s) \<and>
      (case occupancy_count u of None \<Rightarrow> True | Some n \<Rightarrow> 0 \<le> n \<and> n < 2 ^ 31))"

text \<open>
  What the sum of the shares adds up (a column value, or \<^verbatim>\<open>Decimal('0')\<close> for a missing
  or zero one), and what the running sum is after \<open>j\<close> additions.
\<close>

definition share_value :: "decimal \<Rightarrow> bool" where
  "share_value x =
     (\<not> d_sign x \<and> ((d_exp x = - 6 \<and> d_int x < 10 ^ 10) \<or> (d_exp x = 0 \<and> d_int x = 0)))"

definition partial_sum_ok :: "nat \<Rightarrow> decimal \<Rightarrow> bool" where
  "partial_sum_ok j acc =
     (\<not> d_sign acc \<and>
      ((d_exp acc = - 6 \<and> d_int acc \<le> j * 10 ^ 10) \<or> (d_exp acc = 0 \<and> d_int acc = 0)))"

section \<open>Column types\<close>

text \<open>
  A non-negative value of a \<^verbatim>\<open>Numeric(12, 2)\<close> column (\<^verbatim>\<open>amount_due\<close>, \<^verbatim>\<open>amount_paid\<close>,
  \<^verbatim>\<open>Payment.amount\<close>, \<^verbatim>\<open>amount_total\<close>): two decimal places and at most twelve digits.
\<close>

definition numeric_12_2 :: "decimal \<Rightarrow> bool" where
  "numeric_12_2 d = (\<not> d_sign d \<and> d_exp d = - 2 \<and> d_int d < 10 ^ 12)"

section \<open>The transition rule of the specification\<close>

text \<open>
  The rule as the specification words it: a function of the two amounts, the due date and
  the current date only.
\<close>

definition spec_status_rule :: "int \<Rightarrow> 'f invoice \<Rightarrow> InvoiceStatusEnum" where
  "spec_status_rule today self =
     (if dec_val (amount_due self) \<le> dec_val (amount_paid self) then PAID
      else if 0 < dec_val (amount_paid self) then PARTIAL
      else if due_date self < today then OVERDUE
      else UNPAID)"

section \<open>Exact decimal arithmetic on short coefficients\<close>

lemma ndigits_le: "n < 10 ^ k \<Longrightarrow> 0 < k \<Longrightarrow> ndigits n \<le> k"
proof (induction k arbitrary: n)
  case 0
  then show ?case by simp
next
  case (Suc k)
  show ?case
  proof (cases "n < 10")
    case True
    then show ?thesis by (simp add: ndigits.simps)
  next
    case False
    then have k: "0 < k" using Suc.prems by (cases k) auto
    have "n div 10 < 10 ^ k" using Suc.prems by (simp add: less_mult_imp_div_less mult.commute)
    then have "ndigits (n div 10) \<le> k" using k by (rule Suc.IH)
    then show ?thesis using False by (simp add: ndigits.simps)
  qed
qed

lemma dec_fix_small: "d_int d < 10 ^ prec \<Longrightarrow> dec_fix d = d"
  using ndigits_le [of "d_int d" prec] by (simp add: dec_fix_def Let_def prec_def)

lemma dec_add_same_exp:
  assumes "\<not> d_sign a" "\<not> d_sign b" "d_exp a = d_exp b" "d_int a + d_int b < 10 ^ prec"
  shows "dec_add a b = Decimal False (d_int a + d_int b) (d_exp a)"
proof -
  have f: "dec_fix (Decimal False (d_int a + d_int b) (d_exp a)) = Decimal False (d_int a + d_int b) (d_exp a)"
    using assms(4) by (simp add: dec_fix_small)
  have n: "nat (int (d_int a) + int (d_int b)) = d_int a + d_int b"
    by (simp add: nat_int_add)
  show ?thesis
  proof (cases "d_int a = 0 \<and> d_int b = 0")
    case True
    then show ?thesis using assms f by (simp add: dec_add_def Let_def)
  next
    case False
    then show ?thesis using assms f n by (auto simp add: dec_add_def Let_def dec_signed_def)
  qed
qed

lemma dec_val_same_exp:
  "dec_val (Decimal False (m + n) e) = dec_val (Decimal False m e) + dec_val (Decimal False n e)"
  by (simp add: dec_val_def algebra_simps)

lemma numeric_add:
  assumes "\<not> d_sign a" "d_exp a = - 2" "d_int a < 10 ^ 13" "numeric_12_2 b"
  shows "dec_add a b = Decimal False (d_int a + d_int b) (- 2)"
    and "dec_val (dec_add a b) = dec_val a + dec_val b"
proof -
  have b: "\<not> d_sign b" "d_exp b = - 2" "d_int b < 10 ^ 12"
    using assms(4) by (simp_all add: numeric_12_2_def)
  have "d_int a + d_int b < 10 ^ 13 + 10 ^ 12" using assms(3) b(3) by (rule add_strict_mono)
  also have "\<dots> < (10::nat) ^ prec" by (simp add: prec_def)
  finally have lt: "d_int a + d_int b < 10 ^ prec" .
  show 1: "dec_add a b = Decimal False (d_int a + d_int b) (- 2)"
    using dec_add_same_exp [OF assms(1) b(1) _ lt] assms(2) b(2) by simp
  have a': "a = Decimal False (d_int a) (- 2)"
    using assms(1,2) by (cases a) simp
  have b': "b = Decimal False (d_int b) (- 2)"
    using b(1,2) by (cases b) simp
  have "dec_val (dec_add a b) = dec_val (Decimal False (d_int a) (- 2)) + dec_val (Decimal False (d_int b) (- 2))"
    unfolding 1 by (rule dec_val_same_exp)
  then show "dec_val (dec_add a b) = dec_val a + dec_val b"
    using a' b' by simp
qed

section \<open>Invoice status\<close>

text \<open>
  Claim C3 says that \<^verbatim>\<open>update_status\<close> leaves a CANCELLED invoice CANCELLED.  The function
  has no branch that keeps the current status: a CANCELLED invoice with nothing paid and
  100.00 due, due on day 5 and recomputed on day 10, comes out UNPAID.
\<close>

theorem update_status_cancelled_counterexample:
  "status (update_status 10 (\<lparr>inv_unit_id = 1, inv_period = 0, amount_due = Decimal False 10000 (- 2),
       amount_paid = Decimal False 0 0, due_date = 5, status = CANCELLED, details = None,
       invoice_number = ''INV-1''\<rparr> :: unit invoice)) = UNPAID"
  by (simp add: update_status_def is_overdue_def dec_le_def dec_pos_def dec_val_def pow10_def)

text \<open>
  Claim C3, amended: \<^verbatim>\<open>update_status\<close> never produces CANCELLED, and it does not keep it
  either: a CANCELLED invoice becomes PAID when the amount paid reaches the amount due,
  PARTIAL when something is paid, and UNPAID otherwise (never OVERDUE), whatever the due date.
\<close>

theorem update_status_never_cancelled:
  "status (update_status today self) \<noteq> CANCELLED \<and>
   (status self = CANCELLED \<longrightarrow>
      status (update_status today self) =
        (if dec_val (amount_due self) \<le> dec_val (amount_paid self) then PAID
         else if 0 < dec_val (amount_paid self) then PARTIAL
         else UNPAID))"
proof (cases "dec_val (amount_due self) \<le> dec_val (amount_paid self)")
  case True
  then show ?thesis
    by (simp add: update_status_def dec_le_def)
next
  case due: False
  show ?thesis
  proof (cases "0 < dec_val (amount_paid self)")
    case True
    then show ?thesis
      using due by (simp add: update_status_def dec_le_def dec_pos_def)
  next
    case False
    then show ?thesis
      using due by (simp add: update_status_def is_overdue_def dec_le_def dec_pos_def)
  qed
qed

theorem update_status_never_cancelled_witness:
  "status (\<lparr>inv_unit_id = 1, inv_period = 0, amount_due = Decimal False 10000 (- 2),
       amount_paid = Decimal False 4000 (- 2), due_date = 5, status = CANCELLED, details = None,
       invoice_number = ''INV-1''\<rparr> :: unit invoice) = CANCELLED \<and>
   status (update_status 10 (\<lparr>inv_unit_id = 1, inv_period = 0, amount_due = Decimal False 10000 (- 2),
       amount_paid = Decimal False 4000 (- 2), due_date = 5, status = CANCELLED, details = None,
       invoice_number = ''INV-1''\<rparr> :: unit invoice)) = PARTIAL"
  using update_status_never_cancelled [of 10 "\<lparr>inv_unit_id = 1, inv_period = 0, amount_due = Decimal False 10000 (- 2),
       amount_paid = Decimal False 4000 (- 2), due_date = 5, status = CANCELLED, details = None,
       invoice_number = ''INV-1''\<rparr> :: unit invoice"]
  by (simp add: dec_val_def pow10_def)

text \<open>
  Claim C5 says that the status after \<^verbatim>\<open>update_status\<close> of an invoice that is not CANCELLED
  is given by the rule of the specification.  The third branch goes through
  \<^verbatim>\<open>is_overdue\<close>, which also looks at the current status: an invoice marked PAID with
  nothing paid, 100.00 due and a due date in the past comes out UNPAID where the rule
  says OVERDUE.
\<close>

theorem update_status_rule_counterexample:
  "status (\<lparr>inv_unit_id = 1, inv_period = 0, amount_due = Decimal False 10000 (- 2),
       amount_paid = Decimal False 0 0, due_date = 5, status = PAID, details = None,
       invoice_number = ''INV-1''\<rparr> :: unit invoice) \<noteq> CANCELLED \<and>
   spec_status_rule 10 (\<lparr>inv_unit_id = 1, inv_period = 0, amount_due = Decimal False 10000 (- 2),
       amount_paid = Decimal False 0 0, due_date = 5, status = PAID, details = None,
       invoice_number = ''INV-1''\<rparr> :: unit invoice) = OVERDUE \<and>
   status (update_status 10 (\<lparr>inv_unit_id = 1, inv_period = 0, amount_due = Decimal False 10000 (- 2),
       amount_paid = Decimal False 0 0, due_date = 5, status = PAID, details = None,
       invoice_number = ''INV-1''\<rparr> :: unit invoice)) = UNPAID"
  by (simp add: update_status_def spec_status_rule_def is_overdue_def dec_le_def dec_pos_def
      dec_val_def pow10_def)

text \<open>
  Claim C5, amended: for an invoice that is not CANCELLED, \<^verbatim>\<open>update_status\<close> sets the
  status to PAID if the amount paid is at least the amount due; otherwise to PARTIAL if the
  amount paid is positive; otherwise to OVERDUE if the due date is before today and the
  current status is not PAID; otherwise to UNPAID.
\<close>

theorem update_status_rule:
  assumes "status self \<noteq> CANCELLED"
  shows "status (update_status today self) =
     (if dec_val (amount_due self) \<le> dec_val (amount_paid self) then PAID
      else if 0 < dec_val (amount_paid self) then PARTIAL
      else if due_date self < today \<and> status self \<noteq> PAID then OVERDUE
      else UNPAID)"
proof (cases "dec_val (amount_due self) \<le> dec_val (amount_paid self)")
  case True
  then show ?thesis
    by (simp add: update_status_def dec_le_def)
next
  case due: False
  show ?thesis
  proof (cases "0 < dec_val (amount_paid self)")
    case True
    then show ?thesis
      using due by (simp add: update_status_def dec_le_def dec_pos_def)
  next
    case nothing_paid: False
    have "is_overdue today self \<longleftrightarrow> due_date self < today \<and> status self \<noteq> PAID"
      using assms by (simp add: is_overdue_def)
    then show ?thesis
      using due nothing_paid by (simp add: update_status_def dec_le_def dec_pos_def)
  qed
qed

theorem update_status_rule_witness:
  "status (\<lparr>inv_unit_id = 1, inv_period = 0, amount_due = Decimal False 10000 (- 2),
       amount_paid = Decimal False 0 0, due_date = 5, status = UNPAID, details = None,
       invoice_number = ''INV-1''\<rparr> :: unit invoice) \<noteq> CANCELLED \<and>
   status (update_status 10 (\<lparr>inv_unit_id = 1, inv_period = 0, amount_due = Decimal False 10000 (- 2),
       amount_paid = Decimal False 0 0, due_date = 5, status = UNPAID, details = None,
       invoice_number = ''INV-1''\<rparr> :: unit invoice)) = OVERDUE"
  using update_status_rule [of "\<lparr>inv_unit_id = 1, inv_period = 0, amount_due = Decimal False 10000 (- 2),
       amount_paid = Decimal False 0 0, due_date = 5, status = UNPAID, details = None,
       invoice_number = ''INV-1''\<rparr> :: unit invoice" 10]
  by (simp add: dec_val_def pow10_def)

text \<open>
  Claim C10: an invoice with nothing due and nothing paid is classified PAID by
  \<^verbatim>\<open>update_status\<close>, whatever its due date and its current status.
\<close>

theorem zero_invoice_paid:
  "dec_val (amount_due self) = 0 \<Longrightarrow> dec_val (amount_paid self) = 0 \<Longrightarrow>
   status (update_status today self) = PAID"
  by (simp add: update_status_def dec_le_def)

theorem zero_invoice_paid_witness:
  "dec_val (amount_due (\<lparr>inv_unit_id = 1, inv_period = 0, amount_due = Decimal False 0 (- 2),
       amount_paid = Decimal False 0 0, due_date = 5, status = UNPAID, details = None,
       invoice_number = ''INV-1''\<rparr> :: unit invoice)) = 0 \<and>
   dec_val (amount_paid (\<lparr>inv_unit_id = 1, inv_period = 0, amount_due = Decimal False 0 (- 2),
       amount_paid = Decimal False 0 0, due_date = 5, status = UNPAID, details = None,
       invoice_number = ''INV-1''\<rparr> :: unit invoice)) = 0 \<and>
   status (update_status 10 (\<lparr>inv_unit_id = 1, inv_period = 0, amount_due = Decimal False 0 (- 2),
       amount_paid = Decimal False 0 0, due_date = 5, status = UNPAID, details = None,
       invoice_number = ''INV-1''\<rparr> :: unit invoice)) = PAID"
  using zero_invoice_paid [of "\<lparr>inv_unit_id = 1, inv_period = 0, amount_due = Decimal False 0 (- 2),
       amount_paid = Decimal False 0 0, due_date = 5, status = UNPAID, details = None,
       invoice_number = ''INV-1''\<rparr> :: unit invoice" 10]
  by (simp add: dec_val_def pow10_def)

section \<open>Payments applied to invoices\<close>

lemma apply_to_invoice_confirmed:
  "pay_invoice self = Some i \<Longrightarrow> is_confirmed self \<Longrightarrow>
   apply_to_invoice today self =
     (True, self\<lparr>pay_invoice :=
        Some (update_status today (i\<lparr>amount_paid := dec_add (amount_paid i) (pay_amount self)\<rparr>))\<rparr>)"
  by (simp add: apply_to_invoice_def)

lemma update_status_amount_paid: "amount_paid (update_status today self) = amount_paid self"
  by (simp add: update_status_def)

lemma update_status_paid_positive:
  "0 < dec_val (amount_paid self) \<Longrightarrow>
   update_status today self =
     self\<lparr>status := (if dec_val (amount_due self) \<le> dec_val (amount_paid self) then PAID else PARTIAL)\<rparr>"
  by (simp add: update_status_def dec_le_def dec_pos_def)

text \<open>
  Claim C2 says that a second application of the same confirmed payment leaves
  \<^verbatim>\<open>amount_paid\<close> as the first application left it.  \<^verbatim>\<open>apply_to_invoice\<close> keeps no record
  of having run: a payment of 40.00 on an invoice with nothing paid gives 40.00 after the
  first call and 80.00 after the second.
\<close>

theorem apply_to_invoice_twice_counterexample:
  "map_option amount_paid (pay_invoice (snd (apply_to_invoice 1
      (\<lparr>pay_unit_id = 1,
        pay_invoice = Some (\<lparr>inv_unit_id = 1, inv_period = 0, amount_due = Decimal False 10000 (- 2),
          amount_paid = Decimal False 0 (- 2), due_date = 5, status = UNPAID, details = None,
          invoice_number = ''INV-1''\<rparr> :: unit invoice),
        pay_amount = Decimal False 4000 (- 2), is_confirmed = True\<rparr>))))
     = Some (Decimal False 4000 (- 2))
   \<and> map_option amount_paid (pay_invoice (snd (apply_to_invoice 1 (snd (apply_to_invoice 1
      (\<lparr>pay_unit_id = 1,
        pay_invoice = Some (\<lparr>inv_unit_id = 1, inv_period = 0, amount_due = Decimal False 10000 (- 2),
          amount_paid = Decimal False 0 (- 2), due_date = 5, status = UNPAID, details = None,
          invoice_number = ''INV-1''\<rparr> :: unit invoice),
        pay_amount = Decimal False 4000 (- 2), is_confirmed = True\<rparr>))))))
     = Some (Decimal False 8000 (- 2))"
proof -
  have a1: "dec_add (Decimal False 0 (- 2)) (Decimal False 4000 (- 2)) = Decimal False 4000 (- 2)"
    using dec_add_same_exp [of "Decimal False 0 (- 2)" "Decimal False 4000 (- 2)"]
    by (simp add: prec_def)
  have a2: "dec_add (Decimal False 4000 (- 2)) (Decimal False 4000 (- 2)) = Decimal False 8000 (- 2)"
    using dec_add_same_exp [of "Decimal False 4000 (- 2)" "Decimal False 4000 (- 2)"]
    by (simp add: prec_def)
  show ?thesis
    by (simp add: apply_to_invoice_confirmed update_status_amount_paid a1 a2)
qed

text \<open>
  Claim C2, amended: \<^verbatim>\<open>apply_to_invoice\<close> is not idempotent.  For a confirmed payment linked
  to an invoice, with a positive amount and amounts of the column type \<^verbatim>\<open>Numeric(12, 2)\<close>
  that stay within the column, every call returns True, adds the payment's amount to
  \<^verbatim>\<open>amount_paid\<close>, recomputes the status from the new \<^verbatim>\<open>amount_paid\<close> (PAID when it reaches
  \<^verbatim>\<open>amount_due\<close>, PARTIAL otherwise) and changes nothing else: \<^verbatim>\<open>amount_paid\<close> is the initial
  value plus the amount after the first call and plus twice the amount after the second.
\<close>

theorem apply_to_invoice_twice:
  assumes inv: "pay_invoice self = Some i" and conf: "is_confirmed self"
    and paid: "numeric_12_2 (amount_paid i)" and amt: "numeric_12_2 (pay_amount self)"
    and pos: "0 < d_int (pay_amount self)"
    and fits: "d_int (amount_paid i) + 2 * d_int (pay_amount self) < 10 ^ 12"
  shows "apply_to_invoice today self =
           (True, self\<lparr>pay_invoice := Some (i\<lparr>
              amount_paid := Decimal False (d_int (amount_paid i) + d_int (pay_amount self)) (- 2),
              status := (if dec_val (amount_due i) \<le> dec_val (amount_paid i) + dec_val (pay_amount self)
                         then PAID else PARTIAL)\<rparr>)\<rparr>)
     \<and> apply_to_invoice today' (snd (apply_to_invoice today self)) =
           (True, self\<lparr>pay_invoice := Some (i\<lparr>
              amount_paid := Decimal False (d_int (amount_paid i) + 2 * d_int (pay_amount self)) (- 2),
              status := (if dec_val (amount_due i) \<le> dec_val (amount_paid i) + 2 * dec_val (pay_amount self)
                         then PAID else PARTIAL)\<rparr>)\<rparr>)
     \<and> dec_val (Decimal False (d_int (amount_paid i) + d_int (pay_amount self)) (- 2))
           = dec_val (amount_paid i) + dec_val (pay_amount self)
     \<and> dec_val (Decimal False (d_int (amount_paid i) + 2 * d_int (pay_amount self)) (- 2))
           = dec_val (amount_paid i) + 2 * dec_val (pay_amount self)
     \<and> 0 < dec_val (pay_amount self)"
proof -
  let ?a = "pay_amount self"
  let ?A1 = "Decimal False (d_int (amount_paid i) + d_int ?a) (- 2)"
  let ?A2 = "Decimal False (d_int (amount_paid i) + 2 * d_int ?a) (- 2)"
  let ?S1 = "if dec_val (amount_due i) \<le> dec_val (amount_paid i) + dec_val ?a then PAID else PARTIAL"
  let ?S2 = "if dec_val (amount_due i) \<le> dec_val (amount_paid i) + 2 * dec_val ?a then PAID else PARTIAL"
  let ?i1 = "i\<lparr>amount_paid := ?A1, status := ?S1\<rparr>"
  let ?i2 = "i\<lparr>amount_paid := ?A2, status := ?S2\<rparr>"
  have p: "\<not> d_sign (amount_paid i)" "d_exp (amount_paid i) = - 2" "d_int (amount_paid i) < 10 ^ 12"
    using paid by (simp_all add: numeric_12_2_def)
  have a: "\<not> d_sign ?a" "d_exp ?a = - 2" "d_int ?a < 10 ^ 12"
    using amt by (simp_all add: numeric_12_2_def)
  have pv: "dec_val (amount_paid i) = of_nat (d_int (amount_paid i)) / 100"
    using p(1,2) by (simp add: dec_val_def pow10_def)
  have av: "dec_val ?a = of_nat (d_int ?a) / 100"
    using a(1,2) by (simp add: dec_val_def pow10_def)
  have "dec_val ?A1 = of_nat (d_int (amount_paid i) + d_int ?a) / 100"
    by (simp add: dec_val_def pow10_def)
  then have v1: "dec_val ?A1 = dec_val (amount_paid i) + dec_val ?a"
    unfolding pv av by (simp add: add_divide_distrib)
  have "dec_val ?A2 = of_nat (d_int (amount_paid i) + 2 * d_int ?a) / 100"
    by (simp add: dec_val_def pow10_def)
  then have v2: "dec_val ?A2 = dec_val (amount_paid i) + 2 * dec_val ?a"
    unfolding pv av by (simp add: add_divide_distrib)
  have apos: "0 < dec_val ?a"
    using pos by (simp add: av)
  have p0: "0 \<le> dec_val (amount_paid i)"
    by (simp add: pv)
  have lt13: "d_int (amount_paid i) < 10 ^ 13"
    using p(3) by simp
  have add1: "dec_add (amount_paid i) ?a = ?A1"
    using numeric_add(1) [OF p(1,2) lt13 amt] .
  have lt13': "d_int ?A1 < 10 ^ 13"
    using fits by simp
  have "dec_add ?A1 ?a = Decimal False (d_int ?A1 + d_int ?a) (- 2)"
    using numeric_add(1) [of ?A1, OF _ _ lt13' amt] by simp
  then have add2: "dec_add ?A1 ?a = ?A2"
    by simp
  have first: "apply_to_invoice today self = (True, self\<lparr>pay_invoice := Some ?i1\<rparr>)"
    using inv conf apos p0
    by (simp add: apply_to_invoice_def add1 update_status_paid_positive v1)
  have second: "apply_to_invoice today' (snd (apply_to_invoice today self)) =
      (True, self\<lparr>pay_invoice := Some ?i2\<rparr>)"
    unfolding first using conf apos p0
    by (simp add: apply_to_invoice_def add2 update_status_paid_positive v2)
  show ?thesis
    using first second v1 v2 apos by (intro conjI)
qed

theorem apply_to_invoice_twice_witness:
  "numeric_12_2 (Decimal False 0 (- 2)) \<and> numeric_12_2 (Decimal False 4000 (- 2))
   \<and> apply_to_invoice 1 (\<lparr>pay_unit_id = 1,
        pay_invoice = Some (\<lparr>inv_unit_id = 1, inv_period = 0, amount_due = Decimal False 10000 (- 2),
          amount_paid = Decimal False 0 (- 2), due_date = 5, status = UNPAID, details = None,
          invoice_number = ''INV-1''\<rparr> :: unit invoice),
        pay_amount = Decimal False 4000 (- 2), is_confirmed = True\<rparr>) =
        (True, (\<lparr>pay_unit_id = 1,
        pay_invoice = Some (\<lparr>inv_unit_id = 1, inv_period = 0, amount_due = Decimal False 10000 (- 2),
          amount_paid = Decimal False 0 (- 2), due_date = 5, status = UNPAID, details = None,
          invoice_number = ''INV-1''\<rparr> :: unit invoice),
        pay_amount = Decimal False 4000 (- 2), is_confirmed = True\<rparr>)\<lparr>pay_invoice := Some ((\<lparr>inv_unit_id = 1, inv_period = 0, amount_due = Decimal False 10000 (- 2),
          amount_paid = Decimal False 0 (- 2), due_date = 5, status = UNPAID, details = None,
          invoice_number = ''INV-1''\<rparr>)\<lparr>amount_paid := Decimal False 4000 (- 2), status := PARTIAL\<rparr>)\<rparr>)
   \<and> apply_to_invoice 2 (snd (apply_to_invoice 1 (\<lparr>pay_unit_id = 1,
        pay_invoice = Some (\<lparr>inv_unit_id = 1, inv_period = 0, amount_due = Decimal False 10000 (- 2),
          amount_paid = Decimal False 0 (- 2), due_date = 5, status = UNPAID, details = None,
          invoice_number = ''INV-1''\<rparr> :: unit invoice),
        pay_amount = Decimal False 4000 (- 2), is_confirmed = True\<rparr>))) =
        (True, (\<lparr>pay_unit_id = 1,
        pay_invoice = Some (\<lparr>inv_unit_id = 1, inv_period = 0, amount_due = Decimal False 10000 (- 2),
          amount_paid = Decimal False 0 (- 2), due_date = 5, status = UNPAID, details = None,
          invoice_number = ''INV-1''\<rparr> :: unit invoice),
        pay_amount = Decimal False 4000 (- 2), is_confirmed = True\<rparr>)\<lparr>pay_invoice := Some ((\<lparr>inv_unit_id = 1, inv_period = 0, amount_due = Decimal False 10000 (- 2),
          amount_paid = Decimal False 0 (- 2), due_date = 5, status = UNPAID, details = None,
          invoice_number = ''INV-1''\<rparr>)\<lparr>amount_paid := Decimal False 8000 (- 2), status := PARTIAL\<rparr>)\<rparr>)"
  using apply_to_invoice_twice [where self = "\<lparr>pay_unit_id = 1,
        pay_invoice = Some (\<lparr>inv_unit_id = 1, inv_period = 0, amount_due = Decimal False 10000 (- 2),
          amount_paid = Decimal False 0 (- 2), due_date = 5, status = UNPAID, details = None,
          invoice_number = ''INV-1''\<rparr> :: unit invoice),
        pay_amount = Decimal False 4000 (- 2), is_confirmed = True\<rparr>"
      and i = "\<lparr>inv_unit_id = 1, inv_period = 0, amount_due = Decimal False 10000 (- 2),
          amount_paid = Decimal False 0 (- 2), due_date = 5, status = UNPAID, details = None,
          invoice_number = ''INV-1''\<rparr>"
      and today = 1 and today' = 2]
  by (auto simp add: numeric_12_2_def dec_val_def pow10_def)

section \<open>Late fees\<close>

text \<open>
  What \<^verbatim>\<open>add_late_fee\<close> changes and what it leaves alone: the amount due grows by the
  fee (exactly and within the column, for amounts of the column type whose sum is below
  \<open>10^10\<close>); an entry with the fee, the time and the reason is stored when the details
  were absent or empty, and details that were not empty are stored as they were; the
  amount paid and the status stay as they were.
\<close>

lemma add_late_fee_frame:
  "amount_due (add_late_fee float_of now fee self) = dec_add (amount_due self) fee
   \<and> amount_paid (add_late_fee float_of now fee self) = amount_paid self
   \<and> status (add_late_fee float_of now fee self) = status self"
  by (simp add: add_late_fee_def Let_def)

lemma add_late_fee_entry:
  "details (add_late_fee float_of now fee self) =
     (if (case details self of None \<Rightarrow> True | Some d \<Rightarrow> late_fees d = None \<and> charges d = [])
      then Some \<lparr>late_fees =
                   Some [\<lparr>lf_amount = float_of fee, lf_date = now, lf_reason = ''Late payment fee''\<rparr>],
                 charges = []\<rparr>
      else details self)"
  by (simp add: add_late_fee_def Let_def)

lemma add_late_fee_exact:
  assumes "numeric_12_2 (amount_due self)" and "numeric_12_2 fee"
    and "d_int (amount_due self) + d_int fee < 10 ^ 12"
  shows "amount_due (add_late_fee float_of now fee self) =
           Decimal False (d_int (amount_due self) + d_int fee) (- 2)"
    and "numeric_12_2 (amount_due (add_late_fee float_of now fee self))"
    and "dec_val (amount_due (add_late_fee float_of now fee self)) = dec_val (amount_due self) + dec_val fee"
proof -
  have due: "\<not> d_sign (amount_due self)" "d_exp (amount_due self) = - 2"
    "d_int (amount_due self) < 10 ^ 12"
    using assms(1) by (simp_all add: numeric_12_2_def)
  have lt: "d_int (amount_due self) < 10 ^ 13"
    using due(3) by simp
  have sum: "dec_add (amount_due self) fee = Decimal False (d_int (amount_due self) + d_int fee) (- 2)"
    and val: "dec_val (dec_add (amount_due self) fee) = dec_val (amount_due self) + dec_val fee"
    using numeric_add [OF due(1,2) lt assms(2)] by simp_all
  show "amount_due (add_late_fee float_of now fee self) =
      Decimal False (d_int (amount_due self) + d_int fee) (- 2)"
    using sum by (simp add: add_late_fee_def Let_def)
  then show "numeric_12_2 (amount_due (add_late_fee float_of now fee self))"
    using assms(3) by (simp add: numeric_12_2_def)
  show "dec_val (amount_due (add_late_fee float_of now fee self)) = dec_val (amount_due self) + dec_val fee"
    using val by (simp add: add_late_fee_def Let_def)
qed

text \<open>
  Claim C8 says that the fee does not bypass the recomputation of the status.
  \<^verbatim>\<open>add_late_fee\<close> never calls \<^verbatim>\<open>update_status\<close>: a PAID invoice of 100.00, fully paid,
  that receives a fee of 10.00 has 110.00 due and is still PAID, where the rule applied
  afterwards gives PARTIAL.
\<close>

theorem add_late_fee_stale_status:
  "amount_due (add_late_fee (\<lambda>d. d) ''2024-01-01T00:00:00'' (Decimal False 1000 (- 2))
      (\<lparr>inv_unit_id = 1, inv_period = 0, amount_due = Decimal False 10000 (- 2),
        amount_paid = Decimal False 10000 (- 2), due_date = 5, status = PAID, details = None,
        invoice_number = ''INV-1''\<rparr>)) = Decimal False 11000 (- 2)
   \<and> status (add_late_fee (\<lambda>d. d) ''2024-01-01T00:00:00'' (Decimal False 1000 (- 2))
      (\<lparr>inv_unit_id = 1, inv_period = 0, amount_due = Decimal False 10000 (- 2),
        amount_paid = Decimal False 10000 (- 2), due_date = 5, status = PAID, details = None,
        invoice_number = ''INV-1''\<rparr>)) = PAID
   \<and> status (update_status 10 (add_late_fee (\<lambda>d. d) ''2024-01-01T00:00:00'' (Decimal False 1000 (- 2))
      (\<lparr>inv_unit_id = 1, inv_period = 0, amount_due = Decimal False 10000 (- 2),
        amount_paid = Decimal False 10000 (- 2), due_date = 5, status = PAID, details = None,
        invoice_number = ''INV-1''\<rparr>))) = PARTIAL"
  by (simp add: add_late_fee_def update_status_def is_overdue_def dec_le_def dec_pos_def
      dec_val_def pow10_def dec_add_def dec_signed_def dec_fix_def ndigits.simps prec_def Let_def)

section \<open>The mapping returned by the allocation\<close>

text \<open>
  Unit identifiers are primary keys, so the rows of the table have distinct identifiers; the
  dictionary then receives one new key per unit, in the order of the query.
\<close>

lemma dec_div_Inr: "d_int b \<noteq> 0 \<Longrightarrow> dec_div a b = Inr (dec_quot a b)"
  by (simp add: dec_quot_def dec_div_def Let_def split: prod.splits)

lemma dec_pos_nonzero: "dec_pos d \<Longrightarrow> d_int d \<noteq> 0"
  by (cases "d_int d = 0") (simp_all add: dec_pos_def dec_val_def)

lemma update_fresh: "k \<notin> fst ` set al \<Longrightarrow> AList.update k v al = al @ [(k, v)]"
  by (induction al) auto

lemma assign_all_distinct:
  "distinct (map unit_id us) \<Longrightarrow> unit_id ` set us \<inter> fst ` set al = {} \<Longrightarrow>
   assign_all f us al = al @ map (\<lambda>u. (unit_id u, f u)) us"
proof (induction us arbitrary: al)
  case Nil
  then show ?case by (simp add: assign_all_def)
next
  case (Cons u us)
  have fresh: "unit_id u \<notin> fst ` set al"
    using Cons.prems(2) by auto
  have step: "assign_all f (u # us) al = assign_all f us (AList.update (unit_id u) (f u) al)"
    by (simp add: assign_all_def)
  have disj: "unit_id ` set us \<inter> fst ` set (al @ [(unit_id u, f u)]) = {}"
    using Cons.prems by auto
  have "assign_all f us (al @ [(unit_id u, f u)]) = (al @ [(unit_id u, f u)]) @ map (\<lambda>u. (unit_id u, f u)) us"
    using Cons.prems(1) disj by (intro Cons.IH) simp_all
  then show ?case
    by (simp add: step update_fresh [OF fresh])
qed

lemma shares_loop_distinct:
  "d_int total_shares \<noteq> 0 \<Longrightarrow> distinct (map unit_id us) \<Longrightarrow>
   unit_id ` set us \<inter> fst ` set al = {} \<Longrightarrow>
   shares_loop total_shares total_amount us al =
     Inr (al @ map (\<lambda>u. (unit_id u, share_amount total_shares total_amount u)) us)"
proof (induction us arbitrary: al)
  case Nil
  then show ?case by simp
next
  case (Cons u us)
  let ?v = "share_amount total_shares total_amount u"
  have fresh: "unit_id u \<notin> fst ` set al"
    using Cons.prems(3) by auto
  have disj: "unit_id ` set us \<inter> fst ` set (al @ [(unit_id u, ?v)]) = {}"
    using Cons.prems by auto
  have step: "shares_loop total_shares total_amount (u # us) al =
      shares_loop total_shares total_amount us (AList.update (unit_id u) ?v al)"
    using Cons.prems(1)
    by (simp add: share_amount_def dec_div_Inr split: option.splits)
  have "shares_loop total_shares total_amount us (al @ [(unit_id u, ?v)]) =
      Inr ((al @ [(unit_id u, ?v)]) @ map (\<lambda>u. (unit_id u, share_amount total_shares total_amount u)) us)"
    using Cons.prems(1,2) disj by (intro Cons.IH) simp_all
  then show ?case
    unfolding step update_fresh [OF fresh] by simp
qed

lemma active_units_distinct:
  "distinct (map unit_id table) \<Longrightarrow> distinct (map unit_id (active_units table b))"
  by (simp add: active_units_def distinct_map_filter)

lemma dec_of_int_nonzero: "i \<noteq> 0 \<Longrightarrow> d_int (dec_of_int i) \<noteq> 0"
  by (simp add: dec_of_int_def)

lemma calculate_allocations_eq:
  assumes "distinct (map unit_id table)"
  shows "calculate_allocations table self total_amount =
     Inr (if denominator_positive table self
          then map (\<lambda>u. (unit_id u, unit_amount table self total_amount u))
                 (active_units table (cat_building_id self))
          else [])"
proof -
  let ?units = "active_units table (cat_building_id self)"
  have d: "distinct (map unit_id ?units)"
    using assms by (rule active_units_distinct)
  have all: "assign_all f ?units [] = map (\<lambda>u. (unit_id u, f u)) ?units" for f
    using assign_all_distinct [OF d, of "[]" f] by simp
  show ?thesis
  proof (cases "allocation_method self")
    case SHARES
    show ?thesis
    proof (cases "dec_pos (dec_sum (map shares_or_zero ?units))")
      case True
      then have "d_int (dec_sum (map shares_or_zero ?units)) \<noteq> 0"
        by (rule dec_pos_nonzero)
      then have "shares_loop (dec_sum (map shares_or_zero ?units)) total_amount ?units [] =
          Inr (map (\<lambda>u. (unit_id u, share_amount (dec_sum (map shares_or_zero ?units)) total_amount u)) ?units)"
        using shares_loop_distinct [OF _ d, of _ "[]" total_amount] by simp
      then show ?thesis
        using SHARES True
        by (simp add: calculate_allocations_def denominator_positive_def unit_amount_def Let_def)
    next
      case False
      then show ?thesis
        using SHARES by (simp add: calculate_allocations_def denominator_positive_def Let_def)
    qed
  next
    case PER_UNIT
    show ?thesis
    proof (cases "?units = []")
      case True
      then show ?thesis
        using PER_UNIT by (simp add: calculate_allocations_def denominator_positive_def Let_def)
    next
      case False
      then have "d_int (dec_of_int (int (length ?units))) \<noteq> 0"
        by (simp add: dec_of_int_def)
      then have "dec_div total_amount (dec_of_int (int (length ?units))) =
          Inr (dec_quot total_amount (dec_of_int (int (length ?units))))"
        by (rule dec_div_Inr)
      then show ?thesis
        using PER_UNIT False
        by (simp add: calculate_allocations_def denominator_positive_def unit_amount_def Let_def all)
    qed
  next
    case PER_PERSON
    show ?thesis
    proof (cases "0 < sum_list (map occupancy_or_zero ?units)")
      case True
      then have "d_int (dec_of_int (sum_list (map occupancy_or_zero ?units))) \<noteq> 0"
        by (simp add: dec_of_int_def)
      then have "dec_div total_amount (dec_of_int (sum_list (map occupancy_or_zero ?units))) =
          Inr (dec_quot total_amount (dec_of_int (sum_list (map occupancy_or_zero ?units))))"
        by (rule dec_div_Inr)
      then show ?thesis
        using PER_PERSON True
        by (simp add: calculate_allocations_def denominator_positive_def unit_amount_def Let_def all)
    next
      case False
      then show ?thesis
        using PER_PERSON by (simp add: calculate_allocations_def denominator_positive_def Let_def)
    qed
  next
    case METERED
    then show ?thesis
      by (simp add: calculate_allocations_def denominator_positive_def unit_amount_def Let_def all)
  next
    case CUSTOM
    then show ?thesis
      by (simp add: calculate_allocations_def denominator_positive_def unit_amount_def Let_def all)
  qed
qed

lemma calculate_allocations_not_positive:
  "\<not> denominator_positive table self \<Longrightarrow> calculate_allocations table self total_amount = Inr []"
  by (cases "allocation_method self")
    (simp_all add: calculate_allocations_def denominator_positive_def Let_def)

lemma hundred_by_three:
  "dec_quot (Decimal False 10000 (- 2)) (dec_of_int 3) = Decimal False 3333333333333333333333333333 (- 26)"
  by (simp add: dec_quot_def dec_div_def dec_of_int_def dec_fix_def ndigits.simps prec_def Let_def)

lemma zero_shares_sum:
  "dec_sum [dec_zero, dec_zero] = dec_zero"
  by (simp add: dec_sum_def dec_add_def dec_zero_def dec_fix_def Let_def)

section \<open>Zero denominators\<close>

text \<open>
  Claim C6 says that with a zero denominator every eligible unit is still allocated the
  amount 0.  The SHARES branch runs its loop only under \<^verbatim>\<open>if total_shares > 0\<close>: with two
  eligible units whose shares are 0 and missing, the mapping that comes back is empty.
\<close>

theorem zero_denominator_counterexample:
  "map unit_id (active_units
      [\<lparr>unit_id = 1, unit_building_id = 1, shares = Some (Decimal False 0 (- 6)),
         occupancy_count = Some 2, is_active = True\<rparr>,
       \<lparr>unit_id = 2, unit_building_id = 1, shares = None,
         occupancy_count = Some 1, is_active = True\<rparr>] 1) = [1, 2]
   \<and> calculate_allocations
      [\<lparr>unit_id = 1, unit_building_id = 1, shares = Some (Decimal False 0 (- 6)),
         occupancy_count = Some 2, is_active = True\<rparr>,
       \<lparr>unit_id = 2, unit_building_id = 1, shares = None,
         occupancy_count = Some 1, is_active = True\<rparr>]
      \<lparr>cat_id = 1, cat_building_id = 1, code = ''cleaning'', allocation_method = SHARES\<rparr>
      (Decimal False 10000 (- 2)) = Inr []"
proof -
  have s: "dec_sum [dec_zero, dec_zero] = dec_zero"
    by (simp add: dec_sum_def dec_add_def dec_zero_def dec_fix_def Let_def)
  have p: "\<not> dec_pos dec_zero"
    by (simp add: dec_pos_def dec_val_def dec_zero_def)
  show ?thesis
    by (simp add: calculate_allocations_def active_units_def shares_or_zero_def dec_truthy_def s p)
qed

text \<open>
  Claim C6, amended: when the denominator is zero (SHARES with the shares of the eligible
  units summing to 0, PER_PERSON with their occupancy counts summing to 0),
  \<^verbatim>\<open>calculate_allocations\<close> returns the empty mapping: no eligible unit is allocated any amount.
\<close>

theorem zero_denominator_empty:
  "(allocation_method self = SHARES \<and>
      dec_val (dec_sum (map shares_or_zero (active_units table (cat_building_id self)))) = 0)
   \<or> (allocation_method self = PER_PERSON \<and>
      sum_list (map occupancy_or_zero (active_units table (cat_building_id self))) = 0) \<Longrightarrow>
   calculate_allocations table self total_amount = Inr []"
proof -
  assume "(allocation_method self = SHARES \<and>
      dec_val (dec_sum (map shares_or_zero (active_units table (cat_building_id self)))) = 0)
   \<or> (allocation_method self = PER_PERSON \<and>
      sum_list (map occupancy_or_zero (active_units table (cat_building_id self))) = 0)"
  then have "\<not> denominator_positive table self"
    by (auto simp add: denominator_positive_def dec_pos_def)
  then show ?thesis
    by (rule calculate_allocations_not_positive)
qed

theorem zero_denominator_empty_witness:
  "sum_list (map occupancy_or_zero (active_units
      [\<lparr>unit_id = 1, unit_building_id = 1, shares = Some (Decimal False 20000 (- 6)),
         occupancy_count = Some 0, is_active = True\<rparr>,
       \<lparr>unit_id = 2, unit_building_id = 1, shares = None,
         occupancy_count = None, is_active = True\<rparr>] 1)) = 0
   \<and> calculate_allocations
      [\<lparr>unit_id = 1, unit_building_id = 1, shares = Some (Decimal False 20000 (- 6)),
         occupancy_count = Some 0, is_active = True\<rparr>,
       \<lparr>unit_id = 2, unit_building_id = 1, shares = None,
         occupancy_count = None, is_active = True\<rparr>]
      \<lparr>cat_id = 1, cat_building_id = 1, code = ''water'', allocation_method = PER_PERSON\<rparr>
      (Decimal False 10000 (- 2)) = Inr []"
  using zero_denominator_empty [of
      "\<lparr>cat_id = 1, cat_building_id = 1, code = ''water'', allocation_method = PER_PERSON\<rparr>"
      "[\<lparr>unit_id = 1, unit_building_id = 1, shares = Some (Decimal False 20000 (- 6)),
         occupancy_count = Some 0, is_active = True\<rparr>,
       \<lparr>unit_id = 2, unit_building_id = 1, shares = None,
         occupancy_count = None, is_active = True\<rparr>]" "Decimal False 10000 (- 2)"]
  by (simp add: active_units_def occupancy_or_zero_def)

section \<open>An equal split of 100.00 among three units\<close>

text \<open>
  Claim C7 says that a PER_UNIT allocation of 100.00 across three eligible units yields
  33.33, 33.33 and 33.34, summing to 100.00.  \<^verbatim>\<open>calculate_allocations\<close> stores the
  quotient \<^verbatim>\<open>Decimal('100.00') / 3\<close> for every unit, at the 28 digits of the context: no
  amount is 33.33 or 33.34, and three times the quotient is not 100.
\<close>

theorem per_unit_three_counterexample:
  "calculate_allocations
      [\<lparr>unit_id = 1, unit_building_id = 1, shares = None, occupancy_count = None, is_active = True\<rparr>,
       \<lparr>unit_id = 2, unit_building_id = 1, shares = None, occupancy_count = None, is_active = True\<rparr>,
       \<lparr>unit_id = 3, unit_building_id = 1, shares = None, occupancy_count = None, is_active = True\<rparr>]
      \<lparr>cat_id = 1, cat_building_id = 1, code = ''lift'', allocation_method = PER_UNIT\<rparr>
      (Decimal False 10000 (- 2))
     = Inr [(1, Decimal False 3333333333333333333333333333 (- 26)),
            (2, Decimal False 3333333333333333333333333333 (- 26)),
            (3, Decimal False 3333333333333333333333333333 (- 26))]
   \<and> dec_val (Decimal False 3333333333333333333333333333 (- 26)) \<noteq> 3333 / 100
   \<and> dec_val (Decimal False 3333333333333333333333333333 (- 26)) \<noteq> 3334 / 100
   \<and> 3 * dec_val (Decimal False 3333333333333333333333333333 (- 26)) \<noteq> 100"
proof -
  have "calculate_allocations
      [\<lparr>unit_id = 1, unit_building_id = 1, shares = None, occupancy_count = None, is_active = True\<rparr>,
       \<lparr>unit_id = 2, unit_building_id = 1, shares = None, occupancy_count = None, is_active = True\<rparr>,
       \<lparr>unit_id = 3, unit_building_id = 1, shares = None, occupancy_count = None, is_active = True\<rparr>]
      \<lparr>cat_id = 1, cat_building_id = 1, code = ''lift'', allocation_method = PER_UNIT\<rparr>
      (Decimal False 10000 (- 2))
     = Inr [(1, Decimal False 3333333333333333333333333333 (- 26)),
            (2, Decimal False 3333333333333333333333333333 (- 26)),
            (3, Decimal False 3333333333333333333333333333 (- 26))]"
    by (simp add: calculate_allocations_eq denominator_positive_def unit_amount_def active_units_def
        hundred_by_three)
  moreover have "dec_val (Decimal False 3333333333333333333333333333 (- 26)) \<noteq> 3333 / 100"
    "dec_val (Decimal False 3333333333333333333333333333 (- 26)) \<noteq> 3334 / 100"
    "3 * dec_val (Decimal False 3333333333333333333333333333 (- 26)) \<noteq> 100"
    by (simp_all add: dec_val_def pow10_def)
  ultimately show ?thesis by simp
qed

text \<open>
  Claim C7, amended: a PER_UNIT allocation of 100.00 across exactly three eligible units
  gives each of them the same amount 33.33333333333333333333333333, not rounded to cents
  and with no residual cent assigned; the three amounts sum to
  99.99999999999999999999999999.
\<close>

theorem per_unit_three:
  assumes "allocation_method self = PER_UNIT"
    and "active_units table (cat_building_id self) = [u1, u2, u3]"
    and "distinct (map unit_id table)"
  shows "calculate_allocations table self (Decimal False 10000 (- 2))
     = Inr [(unit_id u1, Decimal False 3333333333333333333333333333 (- 26)),
            (unit_id u2, Decimal False 3333333333333333333333333333 (- 26)),
            (unit_id u3, Decimal False 3333333333333333333333333333 (- 26))]
   \<and> 3 * dec_val (Decimal False 3333333333333333333333333333 (- 26)) = 100 - 1 / 10 ^ 26"
proof -
  have "unit_amount table self (Decimal False 10000 (- 2)) u =
      Decimal False 3333333333333333333333333333 (- 26)" for u
    using assms(1,2) by (simp add: unit_amount_def hundred_by_three)
  then have "calculate_allocations table self (Decimal False 10000 (- 2))
     = Inr [(unit_id u1, Decimal False 3333333333333333333333333333 (- 26)),
            (unit_id u2, Decimal False 3333333333333333333333333333 (- 26)),
            (unit_id u3, Decimal False 3333333333333333333333333333 (- 26))]"
    using assms by (simp add: calculate_allocations_eq denominator_positive_def)
  moreover have "3 * dec_val (Decimal False 3333333333333333333333333333 (- 26)) = 100 - 1 / 10 ^ 26"
    by (simp add: dec_val_def pow10_def)
  ultimately show ?thesis by simp
qed

theorem per_unit_three_witness:
  "active_units
      [\<lparr>unit_id = 7, unit_building_id = 1, shares = None, occupancy_count = None, is_active = True\<rparr>,
       \<lparr>unit_id = 8, unit_building_id = 2, shares = None, occupancy_count = None, is_active = True\<rparr>,
       \<lparr>unit_id = 9, unit_building_id = 1, shares = None, occupancy_count = None, is_active = True\<rparr>,
       \<lparr>unit_id = 10, unit_building_id = 1, shares = None, occupancy_count = None, is_active = False\<rparr>,
       \<lparr>unit_id = 11, unit_building_id = 1, shares = None, occupancy_count = None, is_active = True\<rparr>] 1
     = [\<lparr>unit_id = 7, unit_building_id = 1, shares = None, occupancy_count = None, is_active = True\<rparr>,
        \<lparr>unit_id = 9, unit_building_id = 1, shares = None, occupancy_count = None, is_active = True\<rparr>,
        \<lparr>unit_id = 11, unit_building_id = 1, shares = None, occupancy_count = None, is_active = True\<rparr>]
   \<and> calculate_allocations
      [\<lparr>unit_id = 7, unit_building_id = 1, shares = None, occupancy_count = None, is_active = True\<rparr>,
       \<lparr>unit_id = 8, unit_building_id = 2, shares = None, occupancy_count = None, is_active = True\<rparr>,
       \<lparr>unit_id = 9, unit_building_id = 1, shares = None, occupancy_count = None, is_active = True\<rparr>,
       \<lparr>unit_id = 10, unit_building_id = 1, shares = None, occupancy_count = None, is_active = False\<rparr>,
       \<lparr>unit_id = 11, unit_building_id = 1, shares = None, occupancy_count = None, is_active = True\<rparr>]
      \<lparr>cat_id = 1, cat_building_id = 1, code = ''lift'', allocation_method = PER_UNIT\<rparr>
      (Decimal False 10000 (- 2))
     = Inr [(7, Decimal False 3333333333333333333333333333 (- 26)),
            (9, Decimal False 3333333333333333333333333333 (- 26)),
            (11, Decimal False 3333333333333333333333333333 (- 26))]"
  using per_unit_three [of
      "\<lparr>cat_id = 1, cat_building_id = 1, code = ''lift'', allocation_method = PER_UNIT\<rparr>"
      "[\<lparr>unit_id = 7, unit_building_id = 1, shares = None, occupancy_count = None, is_active = True\<rparr>,
       \<lparr>unit_id = 8, unit_building_id = 2, shares = None, occupancy_count = None, is_active = True\<rparr>,
       \<lparr>unit_id = 9, unit_building_id = 1, shares = None, occupancy_count = None, is_active = True\<rparr>,
       \<lparr>unit_id = 10, unit_building_id = 1, shares = None, occupancy_count = None, is_active = False\<rparr>,
       \<lparr>unit_id = 11, unit_building_id = 1, shares = None, occupancy_count = None, is_active = True\<rparr>]"
      "\<lparr>unit_id = 7, unit_building_id = 1, shares = None, occupancy_count = None, is_active = True\<rparr>"
      "\<lparr>unit_id = 9, unit_building_id = 1, shares = None, occupancy_count = None, is_active = True\<rparr>"
      "\<lparr>unit_id = 11, unit_building_id = 1, shares = None, occupancy_count = None, is_active = True\<rparr>"]
  by (simp add: active_units_def)

section \<open>Expenses marked allocated without allocation rows\<close>

text \<open>
  Claim C9: for a SHARES expense whose eligible units' shares sum to 0,
  \<^verbatim>\<open>generate_allocations\<close> creates no allocation row, sets \<^verbatim>\<open>is_allocated\<close> and returns
  True.
\<close>

theorem zero_shares_marked_allocated:
  assumes "\<not> is_allocated self"
    and "allocation_method (category self) = SHARES"
    and "dec_val (dec_sum (map shares_or_zero
           (active_units table (cat_building_id (category self))))) = 0"
  shows "generate_allocations float_of clock table rows self =
           Inr (True, self\<lparr>is_allocated := True\<rparr>, rows)"
proof -
  have "\<not> denominator_positive table (category self)"
    using assms(2,3) by (simp add: denominator_positive_def dec_pos_def)
  then have "calculate_allocations table (category self) (amount_total self) = Inr []"
    by (rule calculate_allocations_not_positive)
  then show ?thesis
    using assms(1) by (simp add: generate_allocations_def)
qed

theorem zero_shares_marked_allocated_witness:
  "dec_val (dec_sum (map shares_or_zero (active_units
      [\<lparr>unit_id = 1, unit_building_id = 1, shares = Some (Decimal False 0 (- 6)),
         occupancy_count = Some 2, is_active = True\<rparr>,
       \<lparr>unit_id = 2, unit_building_id = 1, shares = None,
         occupancy_count = Some 1, is_active = True\<rparr>] 1))) = 0
   \<and> generate_allocations (\<lambda>d. d) (\<lambda>n. ''2024-01-01T00:00:00'')
      [\<lparr>unit_id = 1, unit_building_id = 1, shares = Some (Decimal False 0 (- 6)),
         occupancy_count = Some 2, is_active = True\<rparr>,
       \<lparr>unit_id = 2, unit_building_id = 1, shares = None,
         occupancy_count = Some 1, is_active = True\<rparr>]
      []
      \<lparr>exp_id = 5, exp_building_id = 1,
        category = \<lparr>cat_id = 1, cat_building_id = 1, code = ''cleaning'', allocation_method = SHARES\<rparr>,
        exp_period = 0, amount_total = Decimal False 10000 (- 2), is_allocated = False,
        is_invoiced = False\<rparr>
     = Inr (True,
        \<lparr>exp_id = 5, exp_building_id = 1,
          category = \<lparr>cat_id = 1, cat_building_id = 1, code = ''cleaning'', allocation_method = SHARES\<rparr>,
          exp_period = 0, amount_total = Decimal False 10000 (- 2), is_allocated = True,
          is_invoiced = False\<rparr>, [])"
proof -
  have s: "dec_val (dec_sum (map shares_or_zero (active_units
      [\<lparr>unit_id = 1, unit_building_id = 1, shares = Some (Decimal False 0 (- 6)),
         occupancy_count = Some 2, is_active = True\<rparr>,
       \<lparr>unit_id = 2, unit_building_id = 1, shares = None,
         occupancy_count = Some 1, is_active = True\<rparr>] 1))) = 0"
    by (simp add: active_units_def shares_or_zero_def dec_truthy_def zero_shares_sum)
      (simp add: dec_val_def dec_zero_def)
  show ?thesis
    using s zero_shares_marked_allocated [of
      "\<lparr>exp_id = 5, exp_building_id = 1,
        category = \<lparr>cat_id = 1, cat_building_id = 1, code = ''cleaning'', allocation_method = SHARES\<rparr>,
        exp_period = 0, amount_total = Decimal False 10000 (- 2), is_allocated = False,
        is_invoiced = False\<rparr>"
      "[\<lparr>unit_id = 1, unit_building_id = 1, shares = Some (Decimal False 0 (- 6)),
         occupancy_count = Some 2, is_active = True\<rparr>,
       \<lparr>unit_id = 2, unit_building_id = 1, shares = None,
         occupancy_count = Some 1, is_active = True\<rparr>]"
      "\<lambda>d. d" "\<lambda>n. ''2024-01-01T00:00:00''" "[]"]
    by simp
qed

section \<open>Powers of ten and digit counts\<close>

lemma pow10_powi: "pow10 e = 10 powi e"
  by (simp add: pow10_def power_int_def power_one_over)

lemma pow10_add: "pow10 (a + b) = pow10 a * pow10 b"
  by (simp add: pow10_powi power_int_add)

lemma pow10_pos: "0 < pow10 e"
  by (simp add: pow10_powi)

lemma pow10_int: "pow10 (int k) = 10 ^ k"
  by (simp add: pow10_def)

lemma ndigits_pos: "0 < ndigits n"
  by (subst ndigits.simps) simp

lemma ndigits_upper: "n < 10 ^ ndigits n"
proof (induction n rule: ndigits.induct)
  case (1 n)
  show ?case
  proof (cases "n < 10")
    case True
    then show ?thesis by (subst ndigits.simps) simp
  next
    case False
    then have "n div 10 < 10 ^ ndigits (n div 10)" by (rule 1)
    then have "n < 10 * 10 ^ ndigits (n div 10)" by simp
    then show ?thesis using False by (subst ndigits.simps) simp
  qed
qed

lemma ndigits_lower: "0 < n \<Longrightarrow> 10 ^ (ndigits n - 1) \<le> n"
proof (induction n rule: ndigits.induct)
  case (1 n)
  show ?case
  proof (cases "n < 10")
    case True
    then show ?thesis using 1(2) by (subst ndigits.simps) simp
  next
    case False
    then have "10 ^ (ndigits (n div 10) - 1) \<le> n div 10" by (intro 1) simp_all
    then have "10 * 10 ^ (ndigits (n div 10) - 1) \<le> n" by simp
    moreover have "ndigits n = Suc (ndigits (n div 10))"
      using False by (subst ndigits.simps) simp
    moreover have "0 < ndigits (n div 10)" by (rule ndigits_pos)
    ultimately show ?thesis by (cases "ndigits (n div 10)") simp_all
  qed
qed

lemma ndigits_gt: "10 ^ k \<le> n \<Longrightarrow> k < ndigits n"
proof (rule ccontr)
  assume a: "10 ^ k \<le> n" and "\<not> k < ndigits n"
  then have "ndigits n \<le> k" by simp
  then have "(10::nat) ^ ndigits n \<le> 10 ^ k" by (simp add: power_increasing)
  moreover have "n < 10 ^ ndigits n" by (rule ndigits_upper)
  ultimately show False using a by linarith
qed

section \<open>The rounding of the context\<close>

text \<open>
  \<^const>\<open>dec_fix\<close> changes a value by at most half a unit of the last kept digit, that is
  by at most the value divided by \<open>2 * 10^27\<close>; so does a product.
\<close>

lemma dec_val_fix:
  "dec_val (dec_fix d) = dec_sgn d * of_nat (fix_coeff (d_int d)) * pow10 (d_exp d)"
proof (cases "d_int d = 0 \<or> ndigits (d_int d) \<le> prec")
  case True
  then show ?thesis
    by (auto simp add: dec_fix_def fix_coeff_def dec_val_def dec_sgn_def Let_def)
next
  case False
  define c where "c = d_int d"
  define k where "k = ndigits c - prec"
  define q where "q = c div 10 ^ k"
  define r where "r = c mod 10 ^ k"
  define q' where "q' = (if 10 ^ k < 2 * r \<or> (2 * r = 10 ^ k \<and> odd q) then q + 1 else q)"
  have big: "prec < ndigits c" and c0: "c \<noteq> 0"
    using False by (simp_all add: c_def)
  have fc: "fix_coeff c = q' * 10 ^ k"
    using big c0 by (simp add: fix_coeff_def Let_def k_def q_def r_def q'_def)
  have fx: "dec_fix d =
      (if prec < ndigits q' then Decimal (d_sign d) (q' div 10) (d_exp d + int k + 1)
       else Decimal (d_sign d) q' (d_exp d + int k))"
    using big c0 unfolding dec_fix_def Let_def c_def [symmetric] k_def [symmetric]
      q_def [symmetric] r_def [symmetric] q'_def [symmetric]
    by simp
  show ?thesis
  proof (cases "prec < ndigits q'")
    case carry: True
    have "c < 10 ^ ndigits c" by (rule ndigits_upper)
    moreover have "ndigits c = k + prec" using big by (simp add: k_def)
    ultimately have "c < 10 ^ k * 10 ^ prec" by (simp add: power_add)
    then have "q < 10 ^ prec"
      unfolding q_def by (simp add: less_mult_imp_div_less mult.commute)
    then have le: "q' \<le> 10 ^ prec" by (simp add: q'_def)
    have "\<not> q' < 10 ^ prec"
      using carry ndigits_le [of q' prec] by (auto simp add: prec_def)
    then have "q' = 10 ^ prec" using le by simp
    then have "q' div 10 * 10 = q'" by (simp add: prec_def)
    then have "(of_nat q' :: rat) = of_nat (q' div 10) * 10"
      by (metis of_nat_mult of_nat_numeral)
    then show ?thesis
      using carry
      by (simp add: fx fc c_def [symmetric] dec_val_def dec_sgn_def pow10_add pow10_int
          pow10_def [of 1])
  next
    case False
    then show ?thesis
      by (simp add: fx fc c_def [symmetric] dec_val_def dec_sgn_def pow10_add pow10_int)
  qed
qed

lemma fix_coeff_err:
  assumes "prec < ndigits c"
  shows "2 * \<bar>int (fix_coeff c) - int c\<bar> \<le> 10 ^ (ndigits c - prec)"
    and "c mod 5 \<noteq> 0 \<Longrightarrow> 2 * \<bar>int (fix_coeff c) - int c\<bar> + 2 \<le> 10 ^ (ndigits c - prec)"
proof -
  define k where "k = ndigits c - prec"
  define p where "p = (10::nat) ^ k"
  define q where "q = c div p"
  define r where "r = c mod p"
  define m where "m = q * p"
  define up where "up \<longleftrightarrow> p < 2 * r \<or> (2 * r = p \<and> odd q)"
  have k: "0 < k" using assms by (simp add: k_def)
  have c0: "c \<noteq> 0"
  proof
    assume "c = 0"
    then have "ndigits c = 1" by (simp add: ndigits.simps)
    then show False using assms by (simp add: prec_def)
  qed
  have fc: "fix_coeff c = (if up then m + p else m)"
    using assms c0
    by (simp add: fix_coeff_def Let_def k_def p_def q_def r_def up_def m_def)
  have c: "c = m + r"
    unfolding q_def r_def m_def by (rule div_mult_mod_eq [symmetric])
  have r: "r < p" by (simp add: r_def p_def)
  have ci: "int c = int m + int r" by (simp add: c)
  have fu: "int (fix_coeff c) = int m + int p" if up
    using that by (simp add: fc)
  have fd: "int (fix_coeff c) = int m" if "\<not> up"
    using that by (simp add: fc)
  have ev: "even p" using k by (simp add: p_def)
  have goal: "(10::int) ^ (ndigits c - prec) = int p"
    by (simp add: p_def k_def)
  show "2 * \<bar>int (fix_coeff c) - int c\<bar> \<le> 10 ^ (ndigits c - prec)"
  proof (cases up)
    case True
    then have "p \<le> 2 * r" by (auto simp add: up_def)
    then show ?thesis
      unfolding goal using r fu [OF True] ci by simp
  next
    case False
    then have "2 * r \<le> p" by (auto simp add: up_def)
    then show ?thesis
      unfolding goal using r fd [OF False] ci by simp
  qed
  assume m5: "c mod 5 \<noteq> 0"
  have "(10::nat) dvd 10 ^ k" using k by simp
  then have "5 dvd p" unfolding p_def by (rule dvd_trans [rotated]) simp
  then have "5 dvd m" by (simp add: m_def)
  then have "(m + r) mod 5 = r mod 5"
    by (simp add: mod_add_left_eq [symmetric])
  then have r5: "r mod 5 \<noteq> 0" using m5 by (simp add: c [symmetric])
  have half: "2 * r \<noteq> p"
  proof
    assume "2 * r = p"
    then have "2 * r = 2 * (5 * 10 ^ (k - 1))"
      using k by (cases k) (simp_all add: p_def)
    then have "r = 5 * 10 ^ (k - 1)" by simp
    then show False using r5 by simp
  qed
  show "2 * \<bar>int (fix_coeff c) - int c\<bar> + 2 \<le> 10 ^ (ndigits c - prec)"
  proof (cases up)
    case True
    then have "p < 2 * r" using half by (auto simp add: up_def)
    then have "p + 2 \<le> 2 * r" using ev by presburger
    then show ?thesis
      unfolding goal using r fu [OF True] ci by simp
  next
    case False
    then have "2 * r < p" using half by (auto simp add: up_def)
    then have "2 * r + 2 \<le> p" using ev by presburger
    then show ?thesis
      unfolding goal using r fd [OF False] ci by simp
  qed
qed

lemma fix_coeff_rel: "2 * 10 ^ 27 * \<bar>int (fix_coeff c) - int c\<bar> \<le> int c"
proof (cases "c = 0 \<or> ndigits c \<le> prec")
  case True
  then show ?thesis by (auto simp add: fix_coeff_def)
next
  case False
  then have big: "prec < ndigits c" and c0: "0 < c" by simp_all
  define k where "k = ndigits c - prec"
  have "ndigits c - 1 = 27 + k" using big by (simp add: k_def prec_def)
  then have "10 ^ (27 + k) \<le> c" using ndigits_lower [OF c0] by simp
  then have "int (10 ^ (27 + k)) \<le> int c" by (simp only: of_nat_le_iff)
  then have lo: "10 ^ 27 * 10 ^ k \<le> int c" by (simp add: power_add)
  have "2 * \<bar>int (fix_coeff c) - int c\<bar> \<le> 10 ^ k"
    using fix_coeff_err(1) [OF big] by (simp add: k_def)
  then have "10 ^ 27 * (2 * \<bar>int (fix_coeff c) - int c\<bar>) \<le> 10 ^ 27 * 10 ^ k"
    by (rule mult_left_mono) simp
  then show ?thesis using lo by simp
qed

lemma dec_sgn_abs: "\<bar>dec_sgn d\<bar> = 1"
  by (simp add: dec_sgn_def)

lemma dec_val_sgn: "dec_val d = dec_sgn d * of_nat (d_int d) * pow10 (d_exp d)"
  by (simp add: dec_val_def dec_sgn_def)

lemma dec_fix_err: "\<bar>dec_val (dec_fix d) - dec_val d\<bar> \<le> \<bar>dec_val d\<bar> / (2 * 10 ^ 27)"
proof -
  let ?F = "fix_coeff (d_int d)" and ?c = "d_int d" and ?p = "pow10 (d_exp d)"
  have p: "0 < ?p" by (rule pow10_pos)
  have "dec_val (dec_fix d) - dec_val d = dec_sgn d * (of_nat ?F - of_nat ?c) * ?p"
    unfolding dec_val_fix by (simp add: dec_val_sgn [of d] algebra_simps)
  then have l: "\<bar>dec_val (dec_fix d) - dec_val d\<bar> = \<bar>of_nat ?F - of_nat ?c\<bar> * ?p"
    using p by (simp add: abs_mult dec_sgn_abs)
  have r: "\<bar>dec_val d\<bar> = of_nat ?c * ?p"
    using p by (simp add: dec_val_sgn abs_mult dec_sgn_abs)
  have "of_int (2 * 10 ^ 27 * \<bar>int ?F - int ?c\<bar>) \<le> (of_int (int ?c) :: rat)"
    using fix_coeff_rel [of ?c] by (simp only: of_int_le_iff)
  then have "2 * 10 ^ 27 * \<bar>of_nat ?F - of_nat ?c\<bar> \<le> (of_nat ?c :: rat)"
    by simp
  then have "2 * 10 ^ 27 * \<bar>of_nat ?F - of_nat ?c\<bar> * ?p \<le> of_nat ?c * ?p"
    using p by (simp only: mult_le_cancel_right_pos)
  then show ?thesis
    unfolding l r by (simp add: field_simps)
qed

lemma dec_val_product:
  "dec_val (Decimal (d_sign a \<noteq> d_sign b) (d_int a * d_int b) (d_exp a + d_exp b)) =
     dec_val a * dec_val b"
  by (simp add: dec_val_def pow10_add)

lemma dec_mul_err:
  "\<bar>dec_val (dec_mul a b) - dec_val a * dec_val b\<bar> \<le> \<bar>dec_val a * dec_val b\<bar> / (2 * 10 ^ 27)"
  using dec_fix_err [of "Decimal (d_sign a \<noteq> d_sign b) (d_int a * d_int b) (d_exp a + d_exp b)"]
  by (simp only: dec_mul_def dec_val_product)

section \<open>The rounding of a quotient\<close>

text \<open>
  \<^verbatim>\<open>__truediv__\<close> divides integers with one digit more than the precision and, when the
  division leaves a remainder, makes the last digit differ from 0 and 5, so that the
  rounding of \<^const>\<open>dec_fix\<close> falls on the side of the exact quotient.  The result is
  within the exact quotient divided by \<open>2 * 10^27\<close>.
\<close>

lemma strip_zeros_val:
  "strip_zeros c e i = (c', e') \<Longrightarrow> of_nat c' * pow10 e' = (of_nat c :: rat) * pow10 e"
proof (induction c e i rule: strip_zeros.induct)
  case (1 coeff e ideal_exp)
  show ?case
  proof (cases "e < ideal_exp \<and> coeff mod 10 = 0")
    case True
    then have "strip_zeros (coeff div 10) (e + 1) ideal_exp = (c', e')"
      using 1(2) by (subst (asm) strip_zeros.simps) simp
    then have "of_nat c' * pow10 e' = (of_nat (coeff div 10) :: rat) * pow10 (e + 1)"
      using True by (intro 1(1)) simp_all
    moreover have "coeff div 10 * 10 = coeff" using True by auto
    then have "(of_nat coeff :: rat) = of_nat (coeff div 10) * 10"
      by (metis of_nat_mult of_nat_numeral)
    ultimately show ?thesis
      by (simp add: pow10_add pow10_def [of 1])
  next
    case False
    then have "(c', e') = (coeff, e)"
      using 1(2) by (subst (asm) strip_zeros.simps) auto
    then show ?thesis by simp
  qed
qed

lemma dec_quot_unfold:
  assumes "d_int a \<noteq> 0" and "d_int b \<noteq> 0"
  shows "dec_quot a b =
     (if div_num a b mod div_den a b \<noteq> 0
      then dec_fix (Decimal (d_sign a \<noteq> d_sign b)
             (if div_num a b div div_den a b mod 5 = 0
              then div_num a b div div_den a b + 1 else div_num a b div div_den a b)
             (d_exp a - d_exp b - div_shift a b))
      else dec_fix (Decimal (d_sign a \<noteq> d_sign b)
             (fst (strip_zeros (div_num a b div div_den a b)
                    (d_exp a - d_exp b - div_shift a b) (d_exp a - d_exp b)))
             (snd (strip_zeros (div_num a b div div_den a b)
                    (d_exp a - d_exp b - div_shift a b) (d_exp a - d_exp b)))))"
  using assms
  by (simp add: dec_quot_def dec_div_def Let_def div_num_def div_den_def div_shift_def
      split: prod.splits)

lemma quot_scaled:
  assumes "d_int b \<noteq> 0"
  shows "(of_nat (div_num a b) :: rat) / of_nat (div_den a b) * pow10 (d_exp a - d_exp b - div_shift a b)
       = (of_nat (d_int a) * pow10 (d_exp a)) / (of_nat (d_int b) * pow10 (d_exp b))"
proof -
  have e: "pow10 (d_exp a - d_exp b - div_shift a b) = pow10 (d_exp a) / pow10 (d_exp b) / pow10 (div_shift a b)"
    by (simp add: pow10_powi power_int_diff)
  show ?thesis
  proof (cases "0 \<le> div_shift a b")
    case True
    then have "pow10 (div_shift a b) = 10 ^ nat (div_shift a b)"
      by (simp add: pow10_def)
    then show ?thesis
      using True by (simp add: e div_num_def div_den_def)
  next
    case False
    then have "pow10 (div_shift a b) = 1 / 10 ^ nat (- div_shift a b)"
      by (simp add: pow10_def)
    then show ?thesis
      using False by (simp add: e div_num_def div_den_def)
  qed
qed

lemma quot_coeff_big:
  assumes "d_int a \<noteq> 0" and "d_int b \<noteq> 0"
  shows "10 ^ 28 * div_den a b \<le> div_num a b" and "0 < div_den a b"
proof -
  define la where "la = ndigits (d_int a)"
  define lb where "lb = ndigits (d_int b)"
  have la: "0 < la" and lb: "0 < lb" by (simp_all add: la_def lb_def ndigits_pos)
  have ca: "10 ^ (la - 1) \<le> d_int a"
    using assms(1) unfolding la_def by (intro ndigits_lower) simp
  have cb: "d_int b < 10 ^ lb"
    unfolding lb_def by (rule ndigits_upper)
  have sh: "div_shift a b = int lb - int la + 29"
    by (simp add: div_shift_def la_def lb_def prec_def)
  show "0 < div_den a b"
    using assms(2) by (simp add: div_den_def)
  show "10 ^ 28 * div_den a b \<le> div_num a b"
  proof (cases "0 \<le> div_shift a b")
    case True
    define s where "s = lb + 29 - la"
    have s: "nat (div_shift a b) = s" and sum: "la - 1 + s = 28 + lb"
      using True la unfolding sh s_def by linarith+
    have "10 ^ 28 * d_int b \<le> 10 ^ 28 * 10 ^ lb"
      using cb by simp
    also have "\<dots> = (10::nat) ^ (la - 1) * 10 ^ s"
      by (simp only: power_add [symmetric] sum)
    also have "\<dots> \<le> d_int a * 10 ^ s"
      using ca by simp
    finally show ?thesis
      using True by (simp add: div_num_def div_den_def s)
  next
    case False
    define s where "s = la - lb - 29"
    have s: "nat (- div_shift a b) = s" and sum: "28 + (lb + s) = la - 1"
      using False la unfolding sh s_def by linarith+
    have "10 ^ 28 * (d_int b * 10 ^ s) \<le> 10 ^ 28 * (10 ^ lb * 10 ^ s)"
      using cb by simp
    also have "\<dots> = (10::nat) ^ (la - 1)"
      by (simp only: power_add [symmetric] sum)
    also have "\<dots> \<le> d_int a"
      by (rule ca)
    finally show ?thesis
      using False by (simp add: div_num_def div_den_def s)
  qed
qed

lemma two_step_bound:
  fixes a b c p :: rat
  shows "a \<le> b + c \<Longrightarrow> 2 * b + 2 \<le> p \<Longrightarrow> c \<le> 1 \<Longrightarrow> 2 * a \<le> p"
  by linarith

lemma fix_approx:
  fixes X :: rat
  assumes big: "prec < ndigits c" and m5: "c mod 5 \<noteq> 0"
    and near: "\<bar>X - of_nat c\<bar> \<le> 1"
    and low: "10 ^ 27 * 10 ^ (ndigits c - prec) \<le> X"
  shows "\<bar>dec_val (dec_fix (Decimal s c e)) - (if s then - 1 else 1) * X * pow10 e\<bar>
           \<le> X * pow10 e / (2 * 10 ^ 27)"
proof -
  define k where "k = ndigits c - prec"
  let ?F = "fix_coeff c"
  have p: "0 < pow10 e" by (rule pow10_pos)
  have "2 * \<bar>int ?F - int c\<bar> + 2 \<le> 10 ^ k"
    using fix_coeff_err(2) [OF big m5] by (simp add: k_def)
  then have "(of_int (2 * \<bar>int ?F - int c\<bar> + 2) :: rat) \<le> of_int (10 ^ k)"
    by (simp only: of_int_le_iff)
  then have i: "2 * \<bar>(of_nat ?F :: rat) - of_nat c\<bar> + 2 \<le> 10 ^ k"
    by simp
  have "\<bar>of_nat ?F - X\<bar> \<le> \<bar>(of_nat ?F :: rat) - of_nat c\<bar> + \<bar>X - of_nat c\<bar>"
    by linarith
  then have "2 * \<bar>of_nat ?F - X\<bar> \<le> 10 ^ k"
    using i near by (rule two_step_bound)
  then have "10 ^ 27 * (2 * \<bar>of_nat ?F - X\<bar>) \<le> 10 ^ 27 * 10 ^ k"
    by (rule mult_left_mono) simp
  then have "2 * 10 ^ 27 * \<bar>of_nat ?F - X\<bar> \<le> X"
    using low by (simp add: k_def)
  then have "2 * 10 ^ 27 * \<bar>of_nat ?F - X\<bar> * pow10 e \<le> X * pow10 e"
    using p by (simp only: mult_le_cancel_right_pos)
  moreover have "dec_val (dec_fix (Decimal s c e)) - (if s then - 1 else 1) * X * pow10 e
      = (if s then - 1 else 1) * (of_nat ?F - X) * pow10 e"
    by (simp add: dec_val_fix dec_sgn_def algebra_simps)
  then have "\<bar>dec_val (dec_fix (Decimal s c e)) - (if s then - 1 else 1) * X * pow10 e\<bar>
      = \<bar>of_nat ?F - X\<bar> * pow10 e"
    using p by (simp add: abs_mult)
  ultimately show ?thesis
    by (simp add: field_simps)
qed

lemma dec_val_quotient:
  assumes "d_int b \<noteq> 0"
  shows "dec_val a / dec_val b =
     (if d_sign a \<noteq> d_sign b then - 1 else 1) *
     ((of_nat (div_num a b) :: rat) / of_nat (div_den a b)) *
     pow10 (d_exp a - d_exp b - div_shift a b)"
proof -
  have "dec_val a / dec_val b =
      (dec_sgn a / dec_sgn b) * ((of_nat (d_int a) * pow10 (d_exp a)) / (of_nat (d_int b) * pow10 (d_exp b)))"
    by (simp add: dec_val_sgn)
  moreover have "dec_sgn a / dec_sgn b = (if d_sign a \<noteq> d_sign b then - 1 else 1)"
    by (simp add: dec_sgn_def)
  ultimately show ?thesis
    using quot_scaled [OF assms, of a] by (simp only: mult.assoc)
qed

lemma dec_quot_err:
  assumes "d_int b \<noteq> 0"
  shows "\<bar>dec_val (dec_quot a b) - dec_val a / dec_val b\<bar>
           \<le> \<bar>dec_val a / dec_val b\<bar> / (2 * 10 ^ 27)"
proof (cases "d_int a = 0")
  case True
  then have "dec_quot a b = Decimal (d_sign a \<noteq> d_sign b) 0 (d_exp a - d_exp b)"
    using assms by (simp add: dec_quot_def dec_div_def dec_fix_def Let_def)
  then show ?thesis
    using True by (simp add: dec_val_def)
next
  case False
  define n where "n = div_num a b"
  define m where "m = div_den a b"
  define e where "e = d_exp a - d_exp b - div_shift a b"
  define c where "c = n div m"
  define s where "s \<longleftrightarrow> d_sign a \<noteq> d_sign b"
  define sg :: rat where "sg = (if s then - 1 else 1)"
  define X :: rat where "X = of_nat n / of_nat m"
  have p: "0 < pow10 e" by (rule pow10_pos)
  have m: "0 < m" and big: "10 ^ 28 * m \<le> n"
    using quot_coeff_big [OF False assms] by (simp_all add: n_def m_def)
  have V: "dec_val a / dec_val b = sg * X * pow10 e"
    using dec_val_quotient [OF assms, of a] by (simp add: sg_def s_def X_def n_def m_def e_def)
  have n0: "0 < n" using big m by (cases n) auto
  have X0: "0 < X" using m n0 by (simp add: X_def)
  have absV: "\<bar>dec_val a / dec_val b\<bar> = X * pow10 e"
    using X0 p by (simp add: V abs_mult sg_def)
  have "10 ^ 28 * m div m \<le> n div m" using big by (rule div_le_mono)
  then have c28: "10 ^ 28 \<le> c" using m by (simp add: c_def)
  have n_eq: "n = c * m + n mod m" by (simp add: c_def)
  have "(of_nat n :: rat) = of_nat c * of_nat m + of_nat (n mod m)"
    by (subst n_eq) (simp only: of_nat_add of_nat_mult)
  then have X_eq: "X = of_nat c + of_nat (n mod m) / of_nat m"
    using m by (simp add: X_def field_simps)
  have rm: "(of_nat (n mod m) :: rat) / of_nat m < 1"
    using m by simp
  have rm0: "0 \<le> (of_nat (n mod m) :: rat) / of_nat m"
    by simp
  show ?thesis
  proof (cases "n mod m = 0")
    case exact: True
    define c' where "c' = fst (strip_zeros c e (d_exp a - d_exp b))"
    define e' where "e' = snd (strip_zeros c e (d_exp a - d_exp b))"
    have "strip_zeros c e (d_exp a - d_exp b) = (c', e')" by (simp add: c'_def e'_def)
    then have sv: "of_nat c' * pow10 e' = (of_nat c :: rat) * pow10 e"
      by (rule strip_zeros_val)
    have q: "dec_quot a b = dec_fix (Decimal s c' e')"
      using exact
      by (simp add: dec_quot_unfold [OF False assms] n_def [symmetric] m_def [symmetric]
          e_def [symmetric] c_def [symmetric] c'_def e'_def s_def)
    have "X = of_nat c" using exact by (simp add: X_eq)
    then have "dec_val a / dec_val b = sg * (of_nat c * pow10 e)"
      by (simp add: V)
    moreover have "dec_val (Decimal s c' e') = sg * (of_nat c' * pow10 e')"
      by (simp add: dec_val_def sg_def)
    ultimately have "dec_val (Decimal s c' e') = dec_val a / dec_val b"
      by (simp only: sv)
    then show ?thesis
      using dec_fix_err [of "Decimal s c' e'"] by (simp add: q)
  next
    case inexact: False
    define cs where "cs = (if c mod 5 = 0 then c + 1 else c)"
    define k where "k = ndigits cs - prec"
    have q: "dec_quot a b = dec_fix (Decimal s cs e)"
      using inexact
      by (simp add: dec_quot_unfold [OF False assms] n_def [symmetric] m_def [symmetric]
          e_def [symmetric] c_def [symmetric] cs_def s_def)
    have "0 < n mod m" using inexact by simp
    then have "0 < (of_nat (n mod m) :: rat) / of_nat m"
      using m by simp
    then have lo: "of_nat c < X" and hi: "X < of_nat c + 1"
      using rm by (simp_all add: X_eq)
    have near: "\<bar>X - of_nat cs\<bar> \<le> 1"
      using lo hi by (simp add: cs_def)
    have m5: "cs mod 5 \<noteq> 0"
      by (simp add: cs_def mod_Suc)
    have "10 ^ 28 \<le> cs" using c28 by (simp add: cs_def)
    then have "28 < ndigits cs" by (rule ndigits_gt)
    then have bigd: "prec < ndigits cs" by (simp add: prec_def)
    have cs0: "0 < cs" using c28 by (simp add: cs_def)
    have "ndigits cs - 1 = 27 + k" using bigd by (simp add: k_def prec_def)
    then have low_cs: "10 ^ (27 + k) \<le> cs"
      using ndigits_lower [OF cs0] by simp
    have low_c: "10 ^ (27 + k) \<le> c"
    proof (cases "c mod 5 = 0")
      case True
      have "cs \<noteq> 10 ^ (27 + k)"
      proof
        assume "cs = 10 ^ (27 + k)"
        then have "cs mod 5 = 0" by (simp add: power_add)
        then show False using m5 by simp
      qed
      then have "10 ^ (27 + k) < cs" using low_cs by simp
      then show ?thesis using True by (simp add: cs_def)
    next
      case False
      then show ?thesis using low_cs by (simp add: cs_def)
    qed
    then have "(of_nat (10 ^ (27 + k)) :: rat) \<le> of_nat c"
      by (simp only: of_nat_le_iff)
    also have "\<dots> < X" by (rule lo)
    finally have "(of_nat (10 ^ (27 + k)) :: rat) < X" .
    then have "(10 ^ (27 + k) :: rat) \<le> X"
      by simp
    then have low: "10 ^ 27 * 10 ^ (ndigits cs - prec) \<le> X"
      by (simp add: power_add k_def)
    have "\<bar>dec_val (dec_fix (Decimal s cs e)) - (if s then - 1 else 1) * X * pow10 e\<bar>
           \<le> X * pow10 e / (2 * 10 ^ 27)"
      using bigd m5 near low by (rule fix_approx)
    then show ?thesis
      unfolding q absV unfolding V sg_def .
  qed
qed

section \<open>Two roundings in a row, and sums of errors\<close>

lemma two_roundings_gen:
  fixes p x a y u :: rat
  assumes u: "0 \<le> u"
    and 1: "\<bar>p - x\<bar> \<le> \<bar>x\<bar> * u"
    and 2: "\<bar>a - p * y\<bar> \<le> \<bar>p * y\<bar> * u"
  shows "\<bar>a - x * y\<bar> \<le> \<bar>x * y\<bar> * (2 * u + u * u)"
proof -
  have "\<bar>p\<bar> \<le> \<bar>x\<bar> + \<bar>p - x\<bar>" by linarith
  then have p: "\<bar>p\<bar> \<le> \<bar>x\<bar> + \<bar>x\<bar> * u" using 1 by linarith
  have "\<bar>p * y\<bar> * u = \<bar>p\<bar> * (\<bar>y\<bar> * u)" by (simp add: abs_mult)
  also have "\<dots> \<le> (\<bar>x\<bar> + \<bar>x\<bar> * u) * (\<bar>y\<bar> * u)"
    using p u by (intro mult_right_mono) simp_all
  finally have a: "\<bar>a - p * y\<bar> \<le> (\<bar>x\<bar> + \<bar>x\<bar> * u) * (\<bar>y\<bar> * u)"
    using 2 by linarith
  have "\<bar>p * y - x * y\<bar> = \<bar>p - x\<bar> * \<bar>y\<bar>"
    by (simp add: abs_mult [symmetric] algebra_simps)
  also have "\<dots> \<le> (\<bar>x\<bar> * u) * \<bar>y\<bar>"
    using 1 by (intro mult_right_mono) simp_all
  finally have b: "\<bar>p * y - x * y\<bar> \<le> (\<bar>x\<bar> * u) * \<bar>y\<bar>" .
  have "\<bar>a - x * y\<bar> \<le> \<bar>a - p * y\<bar> + \<bar>p * y - x * y\<bar>" by linarith
  then have "\<bar>a - x * y\<bar> \<le> (\<bar>x\<bar> + \<bar>x\<bar> * u) * (\<bar>y\<bar> * u) + (\<bar>x\<bar> * u) * \<bar>y\<bar>"
    using a b by linarith
  also have "\<dots> = \<bar>x * y\<bar> * (2 * u + u * u)"
    by (simp add: abs_mult algebra_simps)
  finally show ?thesis .
qed

lemma roundoff_twice: "2 * (1 / (2 * 10 ^ 27)) + (1 / (2 * 10 ^ 27)) * (1 / (2 * 10 ^ 27)) \<le> (1 / 10 ^ 26 :: rat)"
  by simp

lemma two_roundings:
  fixes p x a y :: rat
  assumes "\<bar>p - x\<bar> \<le> \<bar>x\<bar> / (2 * 10 ^ 27)"
    and "\<bar>a - p * y\<bar> \<le> \<bar>p * y\<bar> / (2 * 10 ^ 27)"
  shows "\<bar>a - x * y\<bar> \<le> \<bar>x * y\<bar> / 10 ^ 26"
proof -
  let ?u = "1 / (2 * 10 ^ 27) :: rat"
  have "\<bar>a - x * y\<bar> \<le> \<bar>x * y\<bar> * (2 * ?u + ?u * ?u)"
    using assms by (intro two_roundings_gen) simp_all
  also have "\<dots> \<le> \<bar>x * y\<bar> * (1 / 10 ^ 26)"
    using roundoff_twice by (intro mult_left_mono) simp_all
  finally show ?thesis by simp
qed

lemma one_rounding:
  fixes p x :: rat
  assumes "\<bar>p - x\<bar> \<le> \<bar>x\<bar> / (2 * 10 ^ 27)"
  shows "\<bar>p - x\<bar> \<le> \<bar>x\<bar> / 10 ^ 26"
proof -
  have "\<bar>x\<bar> / (2 * 10 ^ 27) \<le> \<bar>x\<bar> / 10 ^ 26"
    by (intro divide_left_mono) simp_all
  then show ?thesis using assms by linarith
qed

lemma sum_list_error:
  fixes f g h :: "'a \<Rightarrow> rat"
  assumes "\<forall>u \<in> set us. \<bar>f u - g u\<bar> \<le> h u"
  shows "\<bar>sum_list (map f us) - sum_list (map g us)\<bar> \<le> sum_list (map h us)"
  using assms
proof (induction us)
  case Nil
  then show ?case by simp
next
  case (Cons u us)
  have "\<bar>f u - g u\<bar> \<le> h u" using Cons.prems by simp
  moreover have "\<bar>sum_list (map f us) - sum_list (map g us)\<bar> \<le> sum_list (map h us)"
    using Cons.prems by (intro Cons.IH) simp
  ultimately show ?case by simp
qed

section \<open>The sum of the shares is exact\<close>

text \<open>
  Shares have six decimal places and at most ten digits, so up to \<open>10^18\<close> of them add
  up without rounding.
\<close>

lemma dec_add_step:
  assumes acc: "partial_sum_ok j acc" and x: "share_value x" and j: "j < 10 ^ 18"
  shows "partial_sum_ok (Suc j) (dec_add acc x)"
    and "dec_val (dec_add acc x) = dec_val acc + dec_val x"
proof -
  obtain ca ea where A: "acc = Decimal False ca ea"
    using acc by (cases acc) (simp add: partial_sum_ok_def)
  obtain cx ex where X: "x = Decimal False cx ex"
    using x by (cases x) (simp add: share_value_def)
  have accE: "(ea = - 6 \<and> ca \<le> j * 10 ^ 10) \<or> (ea = 0 \<and> ca = 0)"
    using acc by (simp add: partial_sum_ok_def A)
  have xE: "(ex = - 6 \<and> cx < 10 ^ 10) \<or> (ex = 0 \<and> cx = 0)"
    using x by (simp add: share_value_def X)
  have "Suc j * 10 ^ 10 \<le> 10 ^ 18 * (10 ^ 10 :: nat)"
    using j by (intro mult_le_mono1) simp
  then have top: "Suc j * 10 ^ 10 \<le> (10 ^ 28 :: nat)" by simp
  have ca: "ca \<le> j * 10 ^ 10" and cx: "cx < 10 ^ 10"
    using accE xE by auto
  have "ca + cx < Suc j * 10 ^ 10" using ca cx by simp
  then have lt: "ca + cx < 10 ^ 28" using top by linarith
  have fx: "dec_fix (Decimal False n e) = Decimal False n e" if "n \<le> ca + cx" for n e
    using that lt by (intro dec_fix_small) (simp add: prec_def)
  have n: "nat (int ca + int cx) = ca + cx" "nat (int ca) = ca" "nat (int cx) = cx"
    by simp_all
  have res: "dec_add acc x = Decimal False (ca + cx) (min ea ex)"
    using accE xE
    by (auto simp add: A X dec_add_def dec_signed_def Let_def fx nat_int_add)
  have ok: "ca + cx \<le> Suc j * 10 ^ 10" using ca cx by simp
  show "partial_sum_ok (Suc j) (dec_add acc x)"
    using accE xE ok by (auto simp add: res partial_sum_ok_def)
  show "dec_val (dec_add acc x) = dec_val acc + dec_val x"
    unfolding res using accE xE by (auto simp add: A X dec_val_def algebra_simps)
qed

lemma dec_sum_fold:
  assumes "partial_sum_ok j acc" and "\<forall>x \<in> set xs. share_value x" and "j + length xs \<le> 10 ^ 18"
  shows "dec_val (foldl dec_add acc xs) = dec_val acc + sum_list (map dec_val xs)"
  using assms
proof (induction xs arbitrary: acc j)
  case Nil
  then show ?case by simp
next
  case (Cons x xs)
  have j: "j < 10 ^ 18" using Cons.prems(3) by simp
  have x: "share_value x" using Cons.prems(2) by simp
  have ok: "partial_sum_ok (Suc j) (dec_add acc x)"
    and v: "dec_val (dec_add acc x) = dec_val acc + dec_val x"
    using dec_add_step [OF Cons.prems(1) x j] by simp_all
  have "dec_val (foldl dec_add (dec_add acc x) xs) =
      dec_val (dec_add acc x) + sum_list (map dec_val xs)"
    using ok Cons.prems(2,3) by (intro Cons.IH [of "Suc j"]) simp_all
  then show ?case by (simp add: v)
qed

lemma dec_sum_exact:
  assumes "\<forall>x \<in> set xs. share_value x" and "length xs \<le> 10 ^ 18"
  shows "dec_val (dec_sum xs) = sum_list (map dec_val xs)"
proof -
  have "partial_sum_ok 0 dec_zero"
    by (simp add: partial_sum_ok_def dec_zero_def)
  then have "dec_val (foldl dec_add dec_zero xs) = dec_val dec_zero + sum_list (map dec_val xs)"
    using assms by (intro dec_sum_fold [of 0]) simp_all
  then show ?thesis
    by (simp add: dec_sum_def dec_val_def dec_zero_def)
qed

lemma share_value_shares_or_zero: "unit_columns_ok u \<Longrightarrow> share_value (shares_or_zero u)"
  by (auto simp add: unit_columns_ok_def shares_or_zero_def share_value_def numeric_10_6_def
      dec_zero_def split: option.splits)

section \<open>Every amount against its exact weight\<close>

lemma amounts_sum_map:
  "amounts_sum (map (\<lambda>u. (unit_id u, f u)) us) = sum_list (map (\<lambda>u. dec_val (f u)) us)"
  by (simp add: amounts_sum_def comp_def)

lemma dec_val_of_int: "dec_val (dec_of_int i) = of_int i"
  by (simp add: dec_of_int_def dec_val_def pow10_def)

lemma of_int_sum_list_map: "(of_int (sum_list (map f xs)) :: rat) = sum_list (map (\<lambda>x. of_int (f x)) xs)"
  by (induction xs) simp_all

lemma sum_list_scaled:
  fixes g :: "'a \<Rightarrow> rat"
  shows "sum_list (map (\<lambda>x. g x / c) xs) = sum_list (map g xs) / c"
  by (induction xs) (simp_all add: add_divide_distrib)

lemma sum_within_tolerance:
  fixes g :: "Unit \<Rightarrow> rat"
  assumes each: "\<forall>u \<in> set us. \<bar>dec_val (f u) - g u\<bar> \<le> g u / 10 ^ 26"
    and total: "sum_list (map g us) = t"
  shows "\<bar>amounts_sum (map (\<lambda>u. (unit_id u, f u)) us) - t\<bar> \<le> t / 10 ^ 26"
proof -
  have "\<bar>sum_list (map (\<lambda>u. dec_val (f u)) us) - sum_list (map g us)\<bar>
      \<le> sum_list (map (\<lambda>u. g u / 10 ^ 26) us)"
    using each by (rule sum_list_error)
  then show ?thesis
    by (simp add: amounts_sum_map sum_list_scaled total)
qed

lemma per_unit_each:
  assumes "0 \<le> dec_val t" and "0 < n"
  shows "\<bar>dec_val (dec_quot t (dec_of_int (int n))) - dec_val t / of_nat n\<bar>
           \<le> (dec_val t / of_nat n) / 10 ^ 26"
proof -
  have nz: "d_int (dec_of_int (int n)) \<noteq> 0"
    using assms(2) by (simp add: dec_of_int_def)
  have v: "dec_val (dec_of_int (int n)) = of_nat n"
    by (simp add: dec_val_of_int)
  have nonneg: "0 \<le> dec_val t / of_nat n"
    using assms by simp
  have "\<bar>dec_val (dec_quot t (dec_of_int (int n))) - dec_val t / of_nat n\<bar>
      \<le> \<bar>dec_val t / of_nat n\<bar> / (2 * 10 ^ 27)"
    using dec_quot_err [OF nz, of t] by (simp only: v)
  then have "\<bar>dec_val (dec_quot t (dec_of_int (int n))) - dec_val t / of_nat n\<bar>
      \<le> \<bar>dec_val t / of_nat n\<bar> / 10 ^ 26"
    by (rule one_rounding)
  then show ?thesis
    using nonneg by (simp only: abs_of_nonneg)
qed

lemma per_person_each:
  assumes "0 \<le> dec_val t" and "0 < T" and "0 \<le> k"
  shows "\<bar>dec_val (dec_mul (dec_quot t (dec_of_int T)) (dec_of_int k))
            - dec_val t / of_int T * of_int k\<bar>
           \<le> (dec_val t / of_int T * of_int k) / 10 ^ 26"
proof -
  have nz: "d_int (dec_of_int T) \<noteq> 0"
    using assms(2) by (simp add: dec_of_int_def)
  have nonneg: "0 \<le> dec_val t / of_int T * of_int k"
    using assms by simp
  have 1: "\<bar>dec_val (dec_quot t (dec_of_int T)) - dec_val t / of_int T\<bar>
      \<le> \<bar>dec_val t / of_int T\<bar> / (2 * 10 ^ 27)"
    using dec_quot_err [OF nz, of t] by (simp only: dec_val_of_int)
  have 2: "\<bar>dec_val (dec_mul (dec_quot t (dec_of_int T)) (dec_of_int k))
        - dec_val (dec_quot t (dec_of_int T)) * of_int k\<bar>
      \<le> \<bar>dec_val (dec_quot t (dec_of_int T)) * of_int k\<bar> / (2 * 10 ^ 27)"
    using dec_mul_err [of "dec_quot t (dec_of_int T)" "dec_of_int k"]
    by (simp only: dec_val_of_int)
  have "\<bar>dec_val (dec_mul (dec_quot t (dec_of_int T)) (dec_of_int k))
        - dec_val t / of_int T * of_int k\<bar>
      \<le> \<bar>dec_val t / of_int T * of_int k\<bar> / 10 ^ 26"
    using 1 2 by (rule two_roundings)
  then show ?thesis
    using nonneg by (simp only: abs_of_nonneg)
qed

lemma shares_each:
  assumes t: "0 \<le> dec_val t" and S: "dec_pos S" and u: "unit_columns_ok u"
  shows "\<bar>dec_val (share_amount S t u) - dec_val (shares_or_zero u) / dec_val S * dec_val t\<bar>
           \<le> (dec_val (shares_or_zero u) / dec_val S * dec_val t) / 10 ^ 26"
proof (cases "\<exists>s. shares u = Some s \<and> dec_truthy s")
  case True
  then obtain s where s: "shares u = Some s" "dec_truthy s" by auto
  have nz: "d_int S \<noteq> 0" using S by (rule dec_pos_nonzero)
  have Spos: "0 < dec_val S" using S by (simp add: dec_pos_def)
  have "numeric_10_6 s" using u s(1) by (simp add: unit_columns_ok_def)
  then have "0 \<le> dec_val s"
    by (simp add: numeric_10_6_def dec_val_def pow10_def)
  then have nonneg: "0 \<le> dec_val s / dec_val S * dec_val t"
    using Spos t by simp
  have 1: "\<bar>dec_val (dec_quot s S) - dec_val s / dec_val S\<bar>
      \<le> \<bar>dec_val s / dec_val S\<bar> / (2 * 10 ^ 27)"
    using nz by (rule dec_quot_err)
  have 2: "\<bar>dec_val (dec_mul (dec_quot s S) t) - dec_val (dec_quot s S) * dec_val t\<bar>
      \<le> \<bar>dec_val (dec_quot s S) * dec_val t\<bar> / (2 * 10 ^ 27)"
    by (rule dec_mul_err)
  have "\<bar>dec_val (dec_mul (dec_quot s S) t) - dec_val s / dec_val S * dec_val t\<bar>
      \<le> \<bar>dec_val s / dec_val S * dec_val t\<bar> / 10 ^ 26"
    using 1 2 by (rule two_roundings)
  then have "\<bar>dec_val (dec_mul (dec_quot s S) t) - dec_val s / dec_val S * dec_val t\<bar>
      \<le> (dec_val s / dec_val S * dec_val t) / 10 ^ 26"
    using nonneg by (simp only: abs_of_nonneg)
  then show ?thesis
    using s by (simp add: share_amount_def shares_or_zero_def)
next
  case False
  then have "share_amount S t u = dec_zero" "shares_or_zero u = dec_zero"
    by (auto simp add: share_amount_def shares_or_zero_def split: option.splits)
  then show ?thesis
    by (simp add: dec_val_def dec_zero_def)
qed

lemma sum_list_weighted:
  fixes g :: "'a \<Rightarrow> rat"
  shows "sum_list (map (\<lambda>x. g x / c * t) xs) = sum_list (map g xs) / c * t"
  by (induction xs) (simp_all add: add_divide_distrib distrib_right)

lemma sum_list_times:
  fixes g :: "'a \<Rightarrow> rat"
  shows "sum_list (map (\<lambda>x. c * g x) xs) = c * sum_list (map g xs)"
  by (induction xs) (simp_all add: distrib_left)

lemma shares_sum_exact:
  assumes "\<forall>u \<in> set us. unit_columns_ok u" and "length us \<le> 10 ^ 18"
  shows "sum_list (map (\<lambda>u. dec_val (shares_or_zero u)) us) = dec_val (dec_sum (map shares_or_zero us))"
proof -
  have "\<forall>x \<in> set (map shares_or_zero us). share_value x"
    using assms(1) by (auto intro: share_value_shares_or_zero)
  then have "dec_val (dec_sum (map shares_or_zero us)) = sum_list (map dec_val (map shares_or_zero us))"
    using assms(2) by (intro dec_sum_exact) simp_all
  then show ?thesis
    by (simp add: comp_def)
qed

lemma numeric_12_2_nonneg: "numeric_12_2 d \<Longrightarrow> 0 \<le> dec_val d"
  by (simp add: numeric_12_2_def dec_val_def pow10_def)

text \<open>
  Every amount of the mapping is the exact proportional amount of its unit up to the
  relative error of two roundings to 28 digits.
\<close>

lemma unit_within_tolerance:
  assumes meth: "allocation_method self \<in> {SHARES, PER_UNIT, PER_PERSON}"
    and pos: "denominator_positive table self"
    and t: "0 \<le> dec_val total_amount"
    and cols: "\<forall>u \<in> set (active_units table (cat_building_id self)). unit_columns_ok u"
    and len: "length (active_units table (cat_building_id self)) \<le> 10 ^ 18"
    and u: "u \<in> set (active_units table (cat_building_id self))"
  shows "\<bar>dec_val (unit_amount table self total_amount u) - exact_share table self total_amount u\<bar>
           \<le> exact_share table self total_amount u / 10 ^ 26"
proof -
  let ?units = "active_units table (cat_building_id self)"
  let ?t = "dec_val total_amount"
  consider (shares) "allocation_method self = SHARES"
    | (per_unit) "allocation_method self = PER_UNIT"
    | (per_person) "allocation_method self = PER_PERSON"
    using meth by auto
  then show ?thesis
  proof cases
    case shares
    let ?S = "dec_sum (map shares_or_zero ?units)"
    have S: "dec_pos ?S"
      using pos shares by (simp add: denominator_positive_def)
    have f: "unit_amount table self total_amount u = share_amount ?S total_amount u"
      using shares by (simp add: unit_amount_def)
    have sum: "sum_list (map (\<lambda>v. dec_val (shares_or_zero v)) ?units) = dec_val ?S"
      using cols len by (rule shares_sum_exact)
    have g: "exact_share table self total_amount u = dec_val (shares_or_zero u) / dec_val ?S * ?t"
      using shares by (simp add: exact_share_def sum)
    have "unit_columns_ok u" using cols u by blast
    then show ?thesis
      unfolding f g using t S by (intro shares_each)
  next
    case per_unit
    let ?n = "length ?units"
    have n: "0 < ?n"
      using pos per_unit by (simp add: denominator_positive_def)
    have f: "unit_amount table self total_amount u = dec_quot total_amount (dec_of_int (int ?n))"
      using per_unit by (simp add: unit_amount_def)
    have g: "exact_share table self total_amount u = ?t / of_nat ?n"
      using per_unit by (simp add: exact_share_def)
    show ?thesis
      unfolding f g using t n by (rule per_unit_each)
  next
    case per_person
    let ?T = "sum_list (map occupancy_or_zero ?units)"
    have T: "0 < ?T"
      using pos per_person by (simp add: denominator_positive_def)
    have f: "unit_amount table self total_amount u =
        dec_mul (dec_quot total_amount (dec_of_int ?T)) (dec_of_int (occupancy_or_zero u))"
      using per_person by (simp add: unit_amount_def)
    have g: "exact_share table self total_amount u = ?t / of_int ?T * of_int (occupancy_or_zero u)"
      using per_person by (simp add: exact_share_def)
    have occ: "0 \<le> occupancy_or_zero u"
      using cols u
      by (auto simp add: unit_columns_ok_def occupancy_or_zero_def split: option.splits)
    show ?thesis
      unfolding f g using t T occ by (rule per_person_each)
  qed
qed

lemma exact_share_nonneg:
  assumes "allocation_method self \<in> {SHARES, PER_UNIT, PER_PERSON}"
    and "denominator_positive table self"
    and "0 \<le> dec_val total_amount"
    and "\<forall>u \<in> set (active_units table (cat_building_id self)). unit_columns_ok u"
    and "length (active_units table (cat_building_id self)) \<le> 10 ^ 18"
    and "u \<in> set (active_units table (cat_building_id self))"
  shows "0 \<le> exact_share table self total_amount u"
proof -
  have "0 \<le> exact_share table self total_amount u / 10 ^ 26"
    using unit_within_tolerance [OF assms] by linarith
  then show ?thesis by simp
qed

text \<open>The exact proportional amounts add up to the total.\<close>

lemma exact_share_sum:
  assumes meth: "allocation_method self \<in> {SHARES, PER_UNIT, PER_PERSON}"
    and pos: "denominator_positive table self"
    and cols: "\<forall>u \<in> set (active_units table (cat_building_id self)). unit_columns_ok u"
    and len: "length (active_units table (cat_building_id self)) \<le> 10 ^ 18"
  shows "sum_list (map (exact_share table self total_amount) (active_units table (cat_building_id self)))
           = dec_val total_amount"
proof -
  let ?units = "active_units table (cat_building_id self)"
  let ?t = "dec_val total_amount"
  consider (shares) "allocation_method self = SHARES"
    | (per_unit) "allocation_method self = PER_UNIT"
    | (per_person) "allocation_method self = PER_PERSON"
    using meth by auto
  then show ?thesis
  proof cases
    case shares
    let ?S = "dec_sum (map shares_or_zero ?units)"
    have "dec_pos ?S"
      using pos shares by (simp add: denominator_positive_def)
    then have Spos: "0 < dec_val ?S" by (simp add: dec_pos_def)
    have sum: "sum_list (map (\<lambda>v. dec_val (shares_or_zero v)) ?units) = dec_val ?S"
      using cols len by (rule shares_sum_exact)
    have g: "exact_share table self total_amount = (\<lambda>u. dec_val (shares_or_zero u) / dec_val ?S * ?t)"
      using shares by (simp add: exact_share_def sum fun_eq_iff)
    have "sum_list (map (\<lambda>u. dec_val (shares_or_zero u) / dec_val ?S * ?t) ?units)
        = sum_list (map (\<lambda>u. dec_val (shares_or_zero u)) ?units) / dec_val ?S * ?t"
      by (rule sum_list_weighted)
    then show ?thesis
      unfolding g using Spos by (simp add: sum)
  next
    case per_unit
    let ?n = "length ?units"
    have n: "0 < ?n"
      using pos per_unit by (simp add: denominator_positive_def)
    have g: "exact_share table self total_amount = (\<lambda>u. ?t / of_nat ?n)"
      using per_unit by (simp add: exact_share_def fun_eq_iff)
    show ?thesis
      unfolding g using n by (simp add: sum_list_triv)
  next
    case per_person
    let ?T = "sum_list (map occupancy_or_zero ?units)"
    have T: "0 < ?T"
      using pos per_person by (simp add: denominator_positive_def)
    have g: "exact_share table self total_amount = (\<lambda>u. ?t / of_int ?T * of_int (occupancy_or_zero u))"
      using per_person by (simp add: exact_share_def fun_eq_iff)
    have "sum_list (map (\<lambda>u. ?t / of_int ?T * of_int (occupancy_or_zero u)) ?units)
        = ?t / of_int ?T * sum_list (map (\<lambda>u. of_int (occupancy_or_zero u)) ?units)"
      by (rule sum_list_times)
    also have "\<dots> = ?t / of_int ?T * of_int ?T"
      by (simp only: of_int_sum_list_map)
    also have "\<dots> = ?t"
      using T by simp
    finally show ?thesis
      unfolding g .
  qed
qed

lemma allocation_within_tolerance:
  assumes meth: "allocation_method self \<in> {SHARES, PER_UNIT, PER_PERSON}"
    and pos: "denominator_positive table self"
    and t: "0 \<le> dec_val total_amount"
    and cols: "\<forall>u \<in> set (active_units table (cat_building_id self)). unit_columns_ok u"
    and len: "length (active_units table (cat_building_id self)) \<le> 10 ^ 18"
  shows "\<bar>amounts_sum (map (\<lambda>u. (unit_id u, unit_amount table self total_amount u))
             (active_units table (cat_building_id self))) - dec_val total_amount\<bar>
           \<le> dec_val total_amount / 10 ^ 26"
proof -
  have each: "\<forall>u \<in> set (active_units table (cat_building_id self)).
      \<bar>dec_val (unit_amount table self total_amount u) - exact_share table self total_amount u\<bar>
        \<le> exact_share table self total_amount u / 10 ^ 26"
    using unit_within_tolerance [OF meth pos t cols len] by blast
  have total: "sum_list (map (exact_share table self total_amount)
      (active_units table (cat_building_id self))) = dec_val total_amount"
    using meth pos cols len by (rule exact_share_sum)
  show ?thesis
    using each total by (rule sum_within_tolerance)
qed

section \<open>The sum of the allocated amounts\<close>

lemma third_times_one:
  "dec_mul (Decimal False 3333333333333333333333333333 (- 26)) (dec_of_int 1)
     = Decimal False 3333333333333333333333333333 (- 26)"
  by (simp add: dec_mul_def dec_of_int_def dec_fix_def ndigits.simps prec_def Let_def)

lemma third_times_two:
  "dec_mul (Decimal False 3333333333333333333333333333 (- 26)) (dec_of_int 2)
     = Decimal False 6666666666666666666666666666 (- 26)"
  by (simp add: dec_mul_def dec_of_int_def dec_fix_def ndigits.simps prec_def Let_def)

lemma per_person_one_two:
  "calculate_allocations
      [\<lparr>unit_id = 1, unit_building_id = 1, shares = None, occupancy_count = Some 1, is_active = True\<rparr>,
       \<lparr>unit_id = 2, unit_building_id = 1, shares = None, occupancy_count = Some 2, is_active = True\<rparr>]
      \<lparr>cat_id = 1, cat_building_id = 1, code = ''water'', allocation_method = PER_PERSON\<rparr>
      (Decimal False 10000 (- 2))
     = Inr [(1, Decimal False 3333333333333333333333333333 (- 26)),
            (2, Decimal False 6666666666666666666666666666 (- 26))]"
  by (simp add: calculate_allocations_eq denominator_positive_def unit_amount_def active_units_def
      occupancy_or_zero_def hundred_by_three third_times_one third_times_two)

text \<open>
  Claim C1 says that the amounts returned by \<^verbatim>\<open>calculate_allocations\<close> sum to the total
  exactly, each amount being rounded to two decimal places and the residual cent given to
  one unit.  The function rounds nothing to cents and assigns no residual: for 100.00
  split PER_PERSON between a unit of one occupant and a unit of two, the amounts are
  33.33333333333333333333333333 and 66.66666666666666666666666666, and their sum is
  99.99999999999999999999999999.
\<close>

theorem allocation_sum_counterexample:
  "calculate_allocations
      [\<lparr>unit_id = 1, unit_building_id = 1, shares = None, occupancy_count = Some 1, is_active = True\<rparr>,
       \<lparr>unit_id = 2, unit_building_id = 1, shares = None, occupancy_count = Some 2, is_active = True\<rparr>]
      \<lparr>cat_id = 1, cat_building_id = 1, code = ''water'', allocation_method = PER_PERSON\<rparr>
      (Decimal False 10000 (- 2))
     = Inr [(1, Decimal False 3333333333333333333333333333 (- 26)),
            (2, Decimal False 6666666666666666666666666666 (- 26))]
   \<and> amounts_sum [(1, Decimal False 3333333333333333333333333333 (- 26)),
                   (2, Decimal False 6666666666666666666666666666 (- 26))] = 100 - 1 / 10 ^ 26
   \<and> dec_val (Decimal False 10000 (- 2)) = 100"
proof -
  have "amounts_sum [(1, Decimal False 3333333333333333333333333333 (- 26)),
                     (2, Decimal False 6666666666666666666666666666 (- 26))] = 100 - 1 / 10 ^ 26"
    by (simp add: amounts_sum_def dec_val_def pow10_def)
  moreover have "dec_val (Decimal False 10000 (- 2)) = 100"
    by (simp add: dec_val_def pow10_def)
  ultimately show ?thesis
    using per_person_one_two by simp
qed

text \<open>
  Claim C1, amended: \<^verbatim>\<open>calculate_allocations\<close> returns the proportional amounts as the
  28-digit decimal arithmetic of the context gives them; it rounds nothing to two decimal
  places and assigns no residual.  For SHARES, PER_UNIT and PER_PERSON, a total of the
  column type \<^verbatim>\<open>Numeric(12, 2)\<close> and at most \<open>10^18\<close> eligible units within the types and
  constraints of their columns: when the denominator of the method is positive, the
  mapping holds for every eligible unit, in the order of the query, the amount
  \<^const>\<open>unit_amount\<close> (the quotient and the product of the source, each rounded to 28
  significant digits); every amount differs from the exact proportional amount of its
  unit by at most that amount divided by \<open>10^26\<close>, and the sum of the amounts differs from
  the total by at most the total divided by \<open>10^26\<close>; otherwise the mapping is empty.
  The inputs of these hypotheses have the exponents \<open>-2\<close>, \<open>-6\<close> and \<open>0\<close> and coefficients of
  at most 29 digits, so the quotients and products of the computation stay far from the
  exponent limits of the context, which the model leaves out.
\<close>

theorem allocation_sum_tolerance:
  assumes "distinct (map unit_id table)"
    and "allocation_method self \<in> {SHARES, PER_UNIT, PER_PERSON}"
    and "numeric_12_2 total_amount"
    and "\<forall>u \<in> set (active_units table (cat_building_id self)). unit_columns_ok u"
    and "length (active_units table (cat_building_id self)) \<le> 10 ^ 18"
  shows "if denominator_positive table self
         then calculate_allocations table self total_amount =
                Inr (map (\<lambda>u. (unit_id u, unit_amount table self total_amount u))
                       (active_units table (cat_building_id self)))
              \<and> (\<forall>u \<in> set (active_units table (cat_building_id self)).
                    \<bar>dec_val (unit_amount table self total_amount u) - exact_share table self total_amount u\<bar>
                      \<le> exact_share table self total_amount u / 10 ^ 26)
              \<and> \<bar>amounts_sum (map (\<lambda>u. (unit_id u, unit_amount table self total_amount u))
                      (active_units table (cat_building_id self))) - dec_val total_amount\<bar>
                    \<le> dec_val total_amount / 10 ^ 26
         else calculate_allocations table self total_amount = Inr []"
proof (cases "denominator_positive table self")
  case True
  have t: "0 \<le> dec_val total_amount"
    using assms(3) by (rule numeric_12_2_nonneg)
  have "calculate_allocations table self total_amount =
      Inr (map (\<lambda>u. (unit_id u, unit_amount table self total_amount u))
             (active_units table (cat_building_id self)))"
    using assms(1) True by (simp add: calculate_allocations_eq)
  moreover have "\<forall>u \<in> set (active_units table (cat_building_id self)).
      \<bar>dec_val (unit_amount table self total_amount u) - exact_share table self total_amount u\<bar>
        \<le> exact_share table self total_amount u / 10 ^ 26"
    using unit_within_tolerance [OF assms(2) True t assms(4,5)] by blast
  moreover have "\<bar>amounts_sum (map (\<lambda>u. (unit_id u, unit_amount table self total_amount u))
      (active_units table (cat_building_id self))) - dec_val total_amount\<bar>
        \<le> dec_val total_amount / 10 ^ 26"
    using assms(2) True t assms(4,5) by (rule allocation_within_tolerance)
  ultimately show ?thesis
    using True by simp
next
  case False
  then show ?thesis
    by (simp add: calculate_allocations_not_positive)
qed

theorem allocation_sum_tolerance_witness:
  "denominator_positive
      [\<lparr>unit_id = 1, unit_building_id = 1, shares = None, occupancy_count = Some 1, is_active = True\<rparr>,
       \<lparr>unit_id = 2, unit_building_id = 1, shares = None, occupancy_count = Some 2, is_active = True\<rparr>]
      \<lparr>cat_id = 1, cat_building_id = 1, code = ''water'', allocation_method = PER_PERSON\<rparr>
   \<and> numeric_12_2 (Decimal False 10000 (- 2))
   \<and> calculate_allocations
      [\<lparr>unit_id = 1, unit_building_id = 1, shares = None, occupancy_count = Some 1, is_active = True\<rparr>,
       \<lparr>unit_id = 2, unit_building_id = 1, shares = None, occupancy_count = Some 2, is_active = True\<rparr>]
      \<lparr>cat_id = 1, cat_building_id = 1, code = ''water'', allocation_method = PER_PERSON\<rparr>
      (Decimal False 10000 (- 2))
     = Inr [(1, Decimal False 3333333333333333333333333333 (- 26)),
            (2, Decimal False 6666666666666666666666666666 (- 26))]
   \<and> exact_share
      [\<lparr>unit_id = 1, unit_building_id = 1, shares = None, occupancy_count = Some 1, is_active = True\<rparr>,
       \<lparr>unit_id = 2, unit_building_id = 1, shares = None, occupancy_count = Some 2, is_active = True\<rparr>]
      \<lparr>cat_id = 1, cat_building_id = 1, code = ''water'', allocation_method = PER_PERSON\<rparr>
      (Decimal False 10000 (- 2))
      \<lparr>unit_id = 1, unit_building_id = 1, shares = None, occupancy_count = Some 1, is_active = True\<rparr> = 100 / 3
   \<and> \<bar>dec_val (Decimal False 3333333333333333333333333333 (- 26)) - 100 / 3\<bar> \<le> (100 / 3) / 10 ^ 26
   \<and> \<bar>amounts_sum [(1, Decimal False 3333333333333333333333333333 (- 26)),
                     (2, Decimal False 6666666666666666666666666666 (- 26))]
        - dec_val (Decimal False 10000 (- 2))\<bar> \<le> dec_val (Decimal False 10000 (- 2)) / 10 ^ 26"
proof -
  let ?table = "[\<lparr>unit_id = 1, unit_building_id = 1, shares = None, occupancy_count = Some 1, is_active = True\<rparr>,
       \<lparr>unit_id = 2, unit_building_id = 1, shares = None, occupancy_count = Some 2, is_active = True\<rparr>]"
  let ?cat = "\<lparr>cat_id = 1, cat_building_id = 1, code = ''water'', allocation_method = PER_PERSON\<rparr>"
  let ?t = "Decimal False 10000 (- 2)"
  let ?u = "\<lparr>unit_id = 1, unit_building_id = 1, shares = None, occupancy_count = Some 1, is_active = True\<rparr>"
  have pos: "denominator_positive ?table ?cat"
    by (simp add: denominator_positive_def active_units_def occupancy_or_zero_def)
  have num: "numeric_12_2 ?t"
    by (simp add: numeric_12_2_def)
  have units: "active_units ?table (cat_building_id ?cat) = ?table"
    by (simp add: active_units_def)
  have amounts: "map (\<lambda>u. (unit_id u, unit_amount ?table ?cat ?t u)) ?table =
      [(1, Decimal False 3333333333333333333333333333 (- 26)),
       (2, Decimal False 6666666666666666666666666666 (- 26))]"
    by (simp add: unit_amount_def active_units_def occupancy_or_zero_def hundred_by_three
        third_times_one third_times_two)
  have ex: "exact_share ?table ?cat ?t ?u = 100 / 3"
    by (simp add: exact_share_def active_units_def occupancy_or_zero_def dec_val_def pow10_def)
  have "if denominator_positive ?table ?cat
    then calculate_allocations ?table ?cat ?t =
           Inr (map (\<lambda>u. (unit_id u, unit_amount ?table ?cat ?t u))
                  (active_units ?table (cat_building_id ?cat)))
         \<and> (\<forall>u \<in> set (active_units ?table (cat_building_id ?cat)).
               \<bar>dec_val (unit_amount ?table ?cat ?t u) - exact_share ?table ?cat ?t u\<bar>
                 \<le> exact_share ?table ?cat ?t u / 10 ^ 26)
         \<and> \<bar>amounts_sum (map (\<lambda>u. (unit_id u, unit_amount ?table ?cat ?t u))
                 (active_units ?table (cat_building_id ?cat))) - dec_val ?t\<bar>
               \<le> dec_val ?t / 10 ^ 26
    else calculate_allocations ?table ?cat ?t = Inr []"
    by (rule allocation_sum_tolerance)
      (simp_all add: active_units_def unit_columns_ok_def numeric_12_2_def)
  then have all: "calculate_allocations ?table ?cat ?t =
           Inr (map (\<lambda>u. (unit_id u, unit_amount ?table ?cat ?t u)) ?table)
         \<and> (\<forall>u \<in> set ?table.
               \<bar>dec_val (unit_amount ?table ?cat ?t u) - exact_share ?table ?cat ?t u\<bar>
                 \<le> exact_share ?table ?cat ?t u / 10 ^ 26)
         \<and> \<bar>amounts_sum (map (\<lambda>u. (unit_id u, unit_amount ?table ?cat ?t u)) ?table) - dec_val ?t\<bar>
               \<le> dec_val ?t / 10 ^ 26"
    unfolding units using pos by simp
  have calc: "calculate_allocations ?table ?cat ?t =
      Inr [(1, Decimal False 3333333333333333333333333333 (- 26)),
           (2, Decimal False 6666666666666666666666666666 (- 26))]"
    using all amounts by simp
  have "\<bar>dec_val (unit_amount ?table ?cat ?t ?u) - exact_share ?table ?cat ?t ?u\<bar>
      \<le> exact_share ?table ?cat ?t ?u / 10 ^ 26"
    using all by simp
  moreover have "unit_amount ?table ?cat ?t ?u = Decimal False 3333333333333333333333333333 (- 26)"
    using amounts by simp
  ultimately have one: "\<bar>dec_val (Decimal False 3333333333333333333333333333 (- 26)) - 100 / 3\<bar>
      \<le> (100 / 3) / 10 ^ 26"
    by (simp only: ex)
  have sum: "\<bar>amounts_sum [(1, Decimal False 3333333333333333333333333333 (- 26)),
                     (2, Decimal False 6666666666666666666666666666 (- 26))]
        - dec_val ?t\<bar> \<le> dec_val ?t / 10 ^ 26"
    using all amounts by simp
  show ?thesis
    using pos num calc ex one sum by (intro conjI)
qed

section \<open>Generating the allocation rows\<close>

text \<open>What the column \<^verbatim>\<open>amount\<close> stores: the value is off by at most half a cent.\<close>

lemma abs_dec_val: "\<bar>dec_val a\<bar> = of_nat (d_int a) * pow10 (d_exp a)"
proof -
  have "0 \<le> pow10 (d_exp a)"
    using pow10_pos [of "d_exp a"] by (rule less_imp_le)
  then show ?thesis
    by (simp add: dec_val_def abs_mult)
qed

lemma numeric_round_bound: "(of_nat (d_int (numeric_round a)) :: rat) / 100 \<le> \<bar>dec_val a\<bar> + 1 / 200"
proof (cases "- 2 \<le> d_exp a")
  case True
  have "pow10 2 = 100"
    by (simp add: pow10_def)
  then have "pow10 (d_exp a + 2) = pow10 (d_exp a) * 100"
    by (simp only: pow10_add)
  moreover have "pow10 (d_exp a + 2) = 10 ^ nat (d_exp a + 2)"
    using True by (simp add: pow10_def)
  ultimately have eq: "(10 :: rat) ^ nat (d_exp a + 2) = pow10 (d_exp a) * 100"
    by simp
  have "d_int (numeric_round a) = d_int a * 10 ^ nat (d_exp a + 2)"
    using True by (simp add: numeric_round_def)
  then have "(of_nat (d_int (numeric_round a)) :: rat) / 100 = of_nat (d_int a) * pow10 (d_exp a)"
    by (simp add: eq)
  then show ?thesis
    unfolding abs_dec_val by simp
next
  case False
  define k where "k = nat (- 2 - d_exp a)"
  define q where "q = d_int a div 10 ^ k"
  define r where "r = d_int a mod 10 ^ k"
  define c where "c = (if 10 ^ k \<le> 2 * r then q + 1 else q)"
  have res: "d_int (numeric_round a) = c"
    using False by (simp add: numeric_round_def Let_def c_def q_def r_def k_def)
  have e: "d_exp a = - int (k + 2)"
    using False by (simp add: k_def)
  have z: "d_exp a + int (k + 2) = 0"
    using e by simp
  have one: "pow10 0 = 1"
    by (simp add: pow10_def)
  have "pow10 (d_exp a) * pow10 (int (k + 2)) = pow10 0"
    unfolding pow10_add [symmetric] z ..
  then have "pow10 (d_exp a) * 10 ^ (k + 2) = 1"
    unfolding pow10_int one .
  then have p: "pow10 (d_exp a) = 1 / (10 ^ k * 100)"
    by (simp add: field_simps power_add)
  have split: "d_int a = q * 10 ^ k + r"
    unfolding q_def r_def by (rule div_mult_mod_eq [symmetric])
  have "(of_nat c :: rat) \<le> of_nat q + of_nat r / 10 ^ k + 1 / 2"
  proof (cases "10 ^ k \<le> 2 * r")
    case True
    then have "(10 ^ k :: rat) \<le> 2 * of_nat r"
      by (metis of_nat_le_iff of_nat_mult of_nat_numeral of_nat_power)
    then have half: "(1 :: rat) / 2 \<le> of_nat r / 10 ^ k"
      by (simp add: field_simps)
    have "(of_nat c :: rat) = of_nat q + 1"
      using True by (simp add: c_def)
    then show ?thesis
      using half by linarith
  next
    case False
    have pos: "0 \<le> (of_nat r :: rat) / 10 ^ k" by simp
    have "(of_nat c :: rat) = of_nat q"
      using False by (simp add: c_def)
    then show ?thesis
      using pos by linarith
  qed
  moreover have "\<bar>dec_val a\<bar> = (of_nat q + of_nat r / 10 ^ k) / 100"
    unfolding abs_dec_val p split by (simp add: field_simps)
  ultimately show ?thesis
    unfolding res by simp
qed

lemma numeric_round_sign: "0 \<le> dec_val a \<Longrightarrow> \<not> d_sign (numeric_round a)"
proof
  assume nonneg: "0 \<le> dec_val a" and s: "d_sign (numeric_round a)"
  have sa: "d_sign a" and c: "d_int (numeric_round a) \<noteq> 0"
    using s by (auto simp add: numeric_round_def Let_def split: if_splits)
  have "dec_val a = - (of_nat (d_int a) * pow10 (d_exp a))"
    using sa by (simp add: dec_val_def)
  moreover have "0 \<le> (of_nat (d_int a) :: rat) * pow10 (d_exp a)"
    using pow10_pos [of "d_exp a"] by simp
  ultimately have "(of_nat (d_int a) :: rat) * pow10 (d_exp a) = 0"
    using nonneg by linarith
  then have "d_int a = 0"
    using pow10_pos [of "d_exp a"] by simp
  then have "d_int (numeric_round a) = 0"
    by (simp add: numeric_round_def Let_def)
  then show False using c by simp
qed

lemma store_amount_ok:
  assumes "0 \<le> dec_val a" and "dec_val a < 10 ^ 10 - 1 / 200"
  shows "store_amount a = Inr (numeric_round a)"
proof -
  have "(of_nat (d_int (numeric_round a)) :: rat) / 100 \<le> \<bar>dec_val a\<bar> + 1 / 200"
    by (rule numeric_round_bound)
  then have "(of_nat (d_int (numeric_round a)) :: rat) / 100 < 10 ^ 10"
    using assms by linarith
  then have "(of_nat (d_int (numeric_round a)) :: rat) < of_nat (10 ^ 12)"
    by simp
  then have "d_int (numeric_round a) < 10 ^ 12"
    by (simp only: of_nat_less_iff)
  moreover have "\<not> d_sign (numeric_round a)"
    using assms(1) by (rule numeric_round_sign)
  ultimately show ?thesis
    by (simp add: store_amount_def Let_def)
qed

text \<open>
  Every amount of the mapping is not negative and below the overflow of the column, so
  every insert of the loop succeeds.
\<close>

lemma member_le_sum_list_rat:
  fixes g :: "'a \<Rightarrow> rat"
  assumes "\<forall>x \<in> set xs. 0 \<le> g x" and "u \<in> set xs"
  shows "g u \<le> sum_list (map g xs)"
  using assms
proof (induction xs)
  case Nil
  then show ?case by simp
next
  case (Cons x xs)
  have rest: "0 \<le> sum_list (map g xs)"
    using Cons.prems(1) by (intro sum_list_nonneg) auto
  show ?case
  proof (cases "u = x")
    case True
    then show ?thesis using rest by simp
  next
    case False
    then have "g u \<le> sum_list (map g xs)"
      using Cons by simp
    moreover have "0 \<le> g x" using Cons.prems(1) by simp
    ultimately show ?thesis by simp
  qed
qed

lemma near_exact:
  fixes v e :: rat
  assumes "\<bar>v - e\<bar> \<le> e / 10 ^ 26" and "0 \<le> e"
  shows "0 \<le> v" and "v \<le> e + e / 10 ^ 26"
proof -
  have "e / 10 ^ 26 \<le> e"
    using assms(2) by (simp add: field_simps)
  then show "0 \<le> v" using assms(1) by linarith
  show "v \<le> e + e / 10 ^ 26" using assms(1) by linarith
qed

lemma unit_amount_storable:
  assumes meth: "allocation_method self \<in> {SHARES, PER_UNIT, PER_PERSON}"
    and pos: "denominator_positive table self"
    and t: "numeric_12_2 total_amount"
    and cols: "\<forall>u \<in> set (active_units table (cat_building_id self)). unit_columns_ok u"
    and len: "length (active_units table (cat_building_id self)) \<le> 10 ^ 18"
    and u: "u \<in> set (active_units table (cat_building_id self))"
  shows "0 \<le> dec_val (unit_amount table self total_amount u)"
    and "dec_val (unit_amount table self total_amount u) < 10 ^ 10 - 1 / 200"
proof -
  let ?units = "active_units table (cat_building_id self)"
  let ?e = "exact_share table self total_amount"
  let ?v = "dec_val (unit_amount table self total_amount u)"
  have t0: "0 \<le> dec_val total_amount"
    using t by (rule numeric_12_2_nonneg)
  have "dec_val total_amount = of_nat (d_int total_amount) / 100"
    using t by (simp add: numeric_12_2_def dec_val_def pow10_def)
  moreover have "d_int total_amount \<le> 10 ^ 12 - 1"
    using t by (simp add: numeric_12_2_def)
  then have "(of_nat (d_int total_amount) :: rat) \<le> of_nat (10 ^ 12 - 1)"
    by (simp only: of_nat_le_iff)
  ultimately have tmax: "dec_val total_amount \<le> 10 ^ 10 - 1 / 100"
    by simp
  have near: "\<bar>?v - ?e u\<bar> \<le> ?e u / 10 ^ 26"
    using meth pos t0 cols len u by (rule unit_within_tolerance)
  have nonneg: "\<forall>x \<in> set ?units. 0 \<le> ?e x"
    using exact_share_nonneg [OF meth pos t0 cols len] by blast
  have "?e u \<le> sum_list (map ?e ?units)"
    using nonneg u by (rule member_le_sum_list_rat)
  also have "\<dots> = dec_val total_amount"
    using meth pos cols len by (rule exact_share_sum)
  finally have le: "?e u \<le> dec_val total_amount" .
  have e0: "0 \<le> ?e u" using nonneg u by blast
  show "0 \<le> ?v"
    using near e0 by (rule near_exact(1))
  have up: "?v \<le> ?e u + ?e u / 10 ^ 26"
    using near e0 by (rule near_exact(2))
  have "?e u \<le> 10 ^ 10 - 1 / 100"
    using le tmax by linarith
  then have "?e u / 10 ^ 26 \<le> (10 ^ 10 - 1 / 100) / 10 ^ 26"
    by (rule divide_right_mono) simp
  moreover have "((10 :: rat) ^ 10 - 1 / 100) / 10 ^ 26 < 1 / 200"
    by simp
  ultimately show "?v < 10 ^ 10 - 1 / 200"
    using up le tmax by linarith
qed

lemma zero_storable: "store_amount dec_zero = Inr (numeric_round dec_zero)"
  by (simp add: store_amount_def numeric_round_def dec_zero_def)

lemma save_allocations_ok:
  assumes "\<forall>u \<in> set us. store_amount (g u) = Inr (numeric_round (g u))"
    and "distinct (map unit_id us)"
    and "\<forall>r \<in> set rows. ea_expense_id r = exp_id self \<longrightarrow> ea_unit_id r \<notin> unit_id ` set us"
  shows "save_allocations float_of clock self n (map (\<lambda>u. (unit_id u, g u)) us) rows =
     Inr (rows @ map (\<lambda>(k, u).
            \<lparr>ea_expense_id = exp_id self, ea_unit_id = unit_id u, ea_amount = numeric_round (g u),
              formula_snapshot =
                \<lparr>fs_method = method_value (allocation_method (category self)),
                  fs_total_amount = float_of (amount_total self),
                  fs_calculation_date = clock k\<rparr>\<rparr>)
          (enumerate n us))"
  using assms
proof (induction us arbitrary: n rows)
  case Nil
  then show ?case by simp
next
  case (Cons u us)
  let ?row = "\<lparr>ea_expense_id = exp_id self, ea_unit_id = unit_id u, ea_amount = numeric_round (g u),
              formula_snapshot =
                \<lparr>fs_method = method_value (allocation_method (category self)),
                  fs_total_amount = float_of (amount_total self),
                  fs_calculation_date = clock n\<rparr>\<rparr>"
  have st: "store_amount (g u) = Inr (numeric_round (g u))"
    using Cons.prems(1) by simp
  have none: "\<not> list_ex (\<lambda>r. ea_expense_id r = exp_id self \<and> ea_unit_id r = unit_id u) rows"
    using Cons.prems(3) by (auto simp add: list_ex_iff)
  have 1: "\<forall>v \<in> set us. store_amount (g v) = Inr (numeric_round (g v))"
    using Cons.prems(1) by simp
  have 2: "distinct (map unit_id us)"
    using Cons.prems(2) by simp
  have 3: "\<forall>r \<in> set (rows @ [?row]). ea_expense_id r = exp_id self \<longrightarrow> ea_unit_id r \<notin> unit_id ` set us"
    using Cons.prems(2,3) by auto
  have "save_allocations float_of clock self (Suc n) (map (\<lambda>u. (unit_id u, g u)) us) (rows @ [?row]) =
     Inr ((rows @ [?row]) @ map (\<lambda>(k, u).
            \<lparr>ea_expense_id = exp_id self, ea_unit_id = unit_id u, ea_amount = numeric_round (g u),
              formula_snapshot =
                \<lparr>fs_method = method_value (allocation_method (category self)),
                  fs_total_amount = float_of (amount_total self),
                  fs_calculation_date = clock k\<rparr>\<rparr>)
          (enumerate (Suc n) us))"
    using 1 2 3 by (rule Cons.IH)
  then show ?case
    using st none by simp
qed

text \<open>
  The expense's own \<^verbatim>\<open>building_id\<close> is not read: the units are those of the building of
  the expense's category.
\<close>

lemma save_allocations_building:
  "save_allocations float_of clock (self\<lparr>exp_building_id := b\<rparr>) n items rows =
     save_allocations float_of clock self n items rows"
proof (induction items arbitrary: n rows)
  case Nil
  then show ?case by simp
next
  case (Cons x items)
  obtain uid amount where x: "x = (uid, amount)" by (cases x)
  show ?case
    unfolding x by (simp add: Cons.IH split: sum.splits)
qed

lemma generate_allocations_building:
  "generate_allocations float_of clock table rows (self\<lparr>exp_building_id := b\<rparr>) =
     map_sum id (\<lambda>(flag, e, rs). (flag, e\<lparr>exp_building_id := b\<rparr>, rs))
       (generate_allocations float_of clock table rows self)"
  by (simp add: generate_allocations_def save_allocations_building split: sum.splits)

lemma third_to_cents:
  "numeric_round (Decimal False 3333333333333333333333333333 (- 26)) = Decimal False 3333 (- 2)"
  by (simp add: numeric_round_def Let_def)

text \<open>
  Claim C4 says that \<^verbatim>\<open>generate_allocations\<close> on an expense that is not yet allocated
  creates one allocation row per eligible unit.  With the SHARES method and two eligible
  units whose shares are 0 and missing, the call succeeds and creates no row.
\<close>

theorem generate_allocations_counterexample:
  "\<not> is_allocated
      \<lparr>exp_id = 5, exp_building_id = 1,
        category = \<lparr>cat_id = 1, cat_building_id = 1, code = ''cleaning'', allocation_method = SHARES\<rparr>,
        exp_period = 0, amount_total = Decimal False 10000 (- 2), is_allocated = False,
        is_invoiced = False\<rparr>
   \<and> map unit_id (active_units
      [\<lparr>unit_id = 1, unit_building_id = 1, shares = Some (Decimal False 0 (- 6)),
         occupancy_count = Some 2, is_active = True\<rparr>,
       \<lparr>unit_id = 2, unit_building_id = 1, shares = None,
         occupancy_count = Some 1, is_active = True\<rparr>] 1) = [1, 2]
   \<and> generate_allocations (\<lambda>d. d) (\<lambda>n. ''2024-01-01T00:00:00'')
      [\<lparr>unit_id = 1, unit_building_id = 1, shares = Some (Decimal False 0 (- 6)),
         occupancy_count = Some 2, is_active = True\<rparr>,
       \<lparr>unit_id = 2, unit_building_id = 1, shares = None,
         occupancy_count = Some 1, is_active = True\<rparr>]
      []
      \<lparr>exp_id = 5, exp_building_id = 1,
        category = \<lparr>cat_id = 1, cat_building_id = 1, code = ''cleaning'', allocation_method = SHARES\<rparr>,
        exp_period = 0, amount_total = Decimal False 10000 (- 2), is_allocated = False,
        is_invoiced = False\<rparr>
     = Inr (True,
        \<lparr>exp_id = 5, exp_building_id = 1,
          category = \<lparr>cat_id = 1, cat_building_id = 1, code = ''cleaning'', allocation_method = SHARES\<rparr>,
          exp_period = 0, amount_total = Decimal False 10000 (- 2), is_allocated = True,
          is_invoiced = False\<rparr>, [])"
proof -
  have p: "\<not> dec_pos dec_zero"
    by (simp add: dec_pos_def dec_val_def dec_zero_def)
  have "\<not> denominator_positive
      [\<lparr>unit_id = 1, unit_building_id = 1, shares = Some (Decimal False 0 (- 6)),
         occupancy_count = Some 2, is_active = True\<rparr>,
       \<lparr>unit_id = 2, unit_building_id = 1, shares = None,
         occupancy_count = Some 1, is_active = True\<rparr>]
      \<lparr>cat_id = 1, cat_building_id = 1, code = ''cleaning'', allocation_method = SHARES\<rparr>"
    by (simp add: denominator_positive_def active_units_def shares_or_zero_def dec_truthy_def
        zero_shares_sum p)
  then show ?thesis
    by (simp add: generate_allocations_def calculate_allocations_not_positive active_units_def)
qed

text \<open>
  Claim C4, amended: on an expense whose \<^verbatim>\<open>is_allocated\<close> is true, \<^verbatim>\<open>generate_allocations\<close>
  returns False (no exception) and leaves the expense and the allocation rows as they
  are.  On an expense that is not allocated, with an \<^verbatim>\<open>amount_total\<close> of its column type
  \<^verbatim>\<open>Numeric(12, 2)\<close>, distinct unit ids, at most \<open>10^18\<close> active units within the types and
  constraints of their columns and no allocation row of this expense in the table, it
  returns True, sets \<^verbatim>\<open>is_allocated\<close> and appends one row per entry of the mapping of
  \<^verbatim>\<open>calculate_allocations\<close>, in its order: one row per active unit of the building of the
  expense's category (the expense's own \<^verbatim>\<open>building_id\<close> is not read) when the guard of
  the method holds (always for METERED and CUSTOM), and no row when the sum of the shares
  (SHARES), the number of these units (PER_UNIT) or the sum of the occupants (PER_PERSON)
  is not positive.  Each row holds the expense, the unit, the amount as the column
  \<^verbatim>\<open>amount\<close>, \<^verbatim>\<open>Numeric(12, 2)\<close>, stores it (the amount of the mapping rounded to two decimal
  places) and a snapshot of the method, of the total as a float and of the time of the
  row.
\<close>

theorem generate_allocations_one_shot:
  assumes "is_allocated self \<or>
      (distinct (map unit_id table)
       \<and> numeric_12_2 (amount_total self)
       \<and> (\<forall>u \<in> set (active_units table (cat_building_id (category self))). unit_columns_ok u)
       \<and> length (active_units table (cat_building_id (category self))) \<le> 10 ^ 18
       \<and> (\<forall>r \<in> set rows. ea_expense_id r \<noteq> exp_id self))"
  shows "generate_allocations float_of clock table rows self =
     (if is_allocated self then Inr (False, self, rows)
      else Inr (True, self\<lparr>is_allocated := True\<rparr>,
             rows @
             (if denominator_positive table (category self)
              then map (\<lambda>(n, u).
                     \<lparr>ea_expense_id = exp_id self, ea_unit_id = unit_id u,
                       ea_amount = numeric_round (unit_amount table (category self) (amount_total self) u),
                       formula_snapshot =
                         \<lparr>fs_method = method_value (allocation_method (category self)),
                           fs_total_amount = float_of (amount_total self),
                           fs_calculation_date = clock n\<rparr>\<rparr>)
                     (enumerate 0 (active_units table (cat_building_id (category self))))
              else [])))"
proof (cases "is_allocated self")
  case True
  then show ?thesis by (simp add: generate_allocations_def)
next
  case False
  let ?units = "active_units table (cat_building_id (category self))"
  let ?g = "unit_amount table (category self) (amount_total self)"
  have d: "distinct (map unit_id table)"
    and t: "numeric_12_2 (amount_total self)"
    and cols: "\<forall>u \<in> set ?units. unit_columns_ok u"
    and len: "length ?units \<le> 10 ^ 18"
    and fresh: "\<forall>r \<in> set rows. ea_expense_id r \<noteq> exp_id self"
    using assms False by simp_all
  have calc: "calculate_allocations table (category self) (amount_total self) =
      Inr (if denominator_positive table (category self)
           then map (\<lambda>u. (unit_id u, ?g u)) ?units else [])"
    using d by (rule calculate_allocations_eq)
  show ?thesis
  proof (cases "denominator_positive table (category self)")
    case pos: True
    have stored: "\<forall>u \<in> set ?units. store_amount (?g u) = Inr (numeric_round (?g u))"
    proof (cases "allocation_method (category self) \<in> {SHARES, PER_UNIT, PER_PERSON}")
      case True
      show ?thesis
      proof
        fix u
        assume u: "u \<in> set ?units"
        have "0 \<le> dec_val (?g u)" and "dec_val (?g u) < 10 ^ 10 - 1 / 200"
          using unit_amount_storable [OF True pos t cols len u] by simp_all
        then show "store_amount (?g u) = Inr (numeric_round (?g u))"
          by (rule store_amount_ok)
      qed
    next
      case False
      then have "?g u = dec_zero" for u
        by (simp add: unit_amount_def)
      then show ?thesis
        by (simp add: zero_storable)
    qed
    have du: "distinct (map unit_id ?units)"
      using d by (rule active_units_distinct)
    have other: "\<forall>r \<in> set rows. ea_expense_id r = exp_id self \<longrightarrow> ea_unit_id r \<notin> unit_id ` set ?units"
      using fresh by simp
    have "save_allocations float_of clock self 0 (map (\<lambda>u. (unit_id u, ?g u)) ?units) rows =
       Inr (rows @ map (\<lambda>(k, u).
            \<lparr>ea_expense_id = exp_id self, ea_unit_id = unit_id u, ea_amount = numeric_round (?g u),
              formula_snapshot =
                \<lparr>fs_method = method_value (allocation_method (category self)),
                  fs_total_amount = float_of (amount_total self),
                  fs_calculation_date = clock k\<rparr>\<rparr>)
          (enumerate 0 ?units))"
      using stored du other by (rule save_allocations_ok)
    then show ?thesis
      using False calc pos by (simp add: generate_allocations_def)
  next
    case no: False
    then show ?thesis
      using False calc by (simp add: generate_allocations_def)
  qed
qed

theorem generate_allocations_one_shot_witness:
  "numeric_12_2 (Decimal False 10000 (- 2))
   \<and> generate_allocations (\<lambda>d. d) (\<lambda>n. if n = 0 then ''t0'' else if n = 1 then ''t1'' else ''t2'')
      [\<lparr>unit_id = 1, unit_building_id = 1, shares = None, occupancy_count = None, is_active = True\<rparr>,
       \<lparr>unit_id = 2, unit_building_id = 1, shares = None, occupancy_count = None, is_active = True\<rparr>,
       \<lparr>unit_id = 3, unit_building_id = 1, shares = None, occupancy_count = None, is_active = True\<rparr>]
      []
      \<lparr>exp_id = 5, exp_building_id = 1,
        category = \<lparr>cat_id = 1, cat_building_id = 1, code = ''lift'', allocation_method = PER_UNIT\<rparr>,
        exp_period = 0, amount_total = Decimal False 10000 (- 2), is_allocated = False,
        is_invoiced = False\<rparr>
     = Inr (True,
        \<lparr>exp_id = 5, exp_building_id = 1,
        category = \<lparr>cat_id = 1, cat_building_id = 1, code = ''lift'', allocation_method = PER_UNIT\<rparr>,
        exp_period = 0, amount_total = Decimal False 10000 (- 2), is_allocated = True,
        is_invoiced = False\<rparr>,
        [\<lparr>ea_expense_id = 5, ea_unit_id = 1, ea_amount = Decimal False 3333 (- 2),
           formula_snapshot = \<lparr>fs_method = ''per_unit'', fs_total_amount = Decimal False 10000 (- 2),
             fs_calculation_date = ''t0''\<rparr>\<rparr>,
         \<lparr>ea_expense_id = 5, ea_unit_id = 2, ea_amount = Decimal False 3333 (- 2),
           formula_snapshot = \<lparr>fs_method = ''per_unit'', fs_total_amount = Decimal False 10000 (- 2),
             fs_calculation_date = ''t1''\<rparr>\<rparr>,
         \<lparr>ea_expense_id = 5, ea_unit_id = 3, ea_amount = Decimal False 3333 (- 2),
           formula_snapshot = \<lparr>fs_method = ''per_unit'', fs_total_amount = Decimal False 10000 (- 2),
             fs_calculation_date = ''t2''\<rparr>\<rparr>])
   \<and> generate_allocations (\<lambda>d. d) (\<lambda>n. if n = 0 then ''t0'' else if n = 1 then ''t1'' else ''t2'')
      [\<lparr>unit_id = 1, unit_building_id = 1, shares = None, occupancy_count = None, is_active = True\<rparr>,
       \<lparr>unit_id = 2, unit_building_id = 1, shares = None, occupancy_count = None, is_active = True\<rparr>,
       \<lparr>unit_id = 3, unit_building_id = 1, shares = None, occupancy_count = None, is_active = True\<rparr>]
      [\<lparr>ea_expense_id = 5, ea_unit_id = 1, ea_amount = Decimal False 3333 (- 2),
           formula_snapshot = \<lparr>fs_method = ''per_unit'', fs_total_amount = Decimal False 10000 (- 2),
             fs_calculation_date = ''t0''\<rparr>\<rparr>,
         \<lparr>ea_expense_id = 5, ea_unit_id = 2, ea_amount = Decimal False 3333 (- 2),
           formula_snapshot = \<lparr>fs_method = ''per_unit'', fs_total_amount = Decimal False 10000 (- 2),
             fs_calculation_date = ''t1''\<rparr>\<rparr>,
         \<lparr>ea_expense_id = 5, ea_unit_id = 3, ea_amount = Decimal False 3333 (- 2),
           formula_snapshot = \<lparr>fs_method = ''per_unit'', fs_total_amount = Decimal False 10000 (- 2),
             fs_calculation_date = ''t2''\<rparr>\<rparr>]
      \<lparr>exp_id = 5, exp_building_id = 1,
        category = \<lparr>cat_id = 1, cat_building_id = 1, code = ''lift'', allocation_method = PER_UNIT\<rparr>,
        exp_period = 0, amount_total = Decimal False 10000 (- 2), is_allocated = True,
        is_invoiced = False\<rparr>
     = Inr (False,
        \<lparr>exp_id = 5, exp_building_id = 1,
        category = \<lparr>cat_id = 1, cat_building_id = 1, code = ''lift'', allocation_method = PER_UNIT\<rparr>,
        exp_period = 0, amount_total = Decimal False 10000 (- 2), is_allocated = True,
        is_invoiced = False\<rparr>,
        [\<lparr>ea_expense_id = 5, ea_unit_id = 1, ea_amount = Decimal False 3333 (- 2),
           formula_snapshot = \<lparr>fs_method = ''per_unit'', fs_total_amount = Decimal False 10000 (- 2),
             fs_calculation_date = ''t0''\<rparr>\<rparr>,
         \<lparr>ea_expense_id = 5, ea_unit_id = 2, ea_amount = Decimal False 3333 (- 2),
           formula_snapshot = \<lparr>fs_method = ''per_unit'', fs_total_amount = Decimal False 10000 (- 2),
             fs_calculation_date = ''t1''\<rparr>\<rparr>,
         \<lparr>ea_expense_id = 5, ea_unit_id = 3, ea_amount = Decimal False 3333 (- 2),
           formula_snapshot = \<lparr>fs_method = ''per_unit'', fs_total_amount = Decimal False 10000 (- 2),
             fs_calculation_date = ''t2''\<rparr>\<rparr>])"
proof -
  have first: "generate_allocations (\<lambda>d. d) (\<lambda>n. if n = 0 then ''t0'' else if n = 1 then ''t1'' else ''t2'')
      [\<lparr>unit_id = 1, unit_building_id = 1, shares = None, occupancy_count = None, is_active = True\<rparr>,
       \<lparr>unit_id = 2, unit_building_id = 1, shares = None, occupancy_count = None, is_active = True\<rparr>,
       \<lparr>unit_id = 3, unit_building_id = 1, shares = None, occupancy_count = None, is_active = True\<rparr>]
      []
      \<lparr>exp_id = 5, exp_building_id = 1,
        category = \<lparr>cat_id = 1, cat_building_id = 1, code = ''lift'', allocation_method = PER_UNIT\<rparr>,
        exp_period = 0, amount_total = Decimal False 10000 (- 2), is_allocated = False,
        is_invoiced = False\<rparr>
     = Inr (True,
        \<lparr>exp_id = 5, exp_building_id = 1,
        category = \<lparr>cat_id = 1, cat_building_id = 1, code = ''lift'', allocation_method = PER_UNIT\<rparr>,
        exp_period = 0, amount_total = Decimal False 10000 (- 2), is_allocated = True,
        is_invoiced = False\<rparr>,
        [\<lparr>ea_expense_id = 5, ea_unit_id = 1, ea_amount = Decimal False 3333 (- 2),
           formula_snapshot = \<lparr>fs_method = ''per_unit'', fs_total_amount = Decimal False 10000 (- 2),
             fs_calculation_date = ''t0''\<rparr>\<rparr>,
         \<lparr>ea_expense_id = 5, ea_unit_id = 2, ea_amount = Decimal False 3333 (- 2),
           formula_snapshot = \<lparr>fs_method = ''per_unit'', fs_total_amount = Decimal False 10000 (- 2),
             fs_calculation_date = ''t1''\<rparr>\<rparr>,
         \<lparr>ea_expense_id = 5, ea_unit_id = 3, ea_amount = Decimal False 3333 (- 2),
           formula_snapshot = \<lparr>fs_method = ''per_unit'', fs_total_amount = Decimal False 10000 (- 2),
             fs_calculation_date = ''t2''\<rparr>\<rparr>])"
    using generate_allocations_one_shot [where self = "\<lparr>exp_id = 5, exp_building_id = 1,
        category = \<lparr>cat_id = 1, cat_building_id = 1, code = ''lift'', allocation_method = PER_UNIT\<rparr>,
        exp_period = 0, amount_total = Decimal False 10000 (- 2), is_allocated = False,
        is_invoiced = False\<rparr>"
        and table = "[\<lparr>unit_id = 1, unit_building_id = 1, shares = None, occupancy_count = None, is_active = True\<rparr>,
       \<lparr>unit_id = 2, unit_building_id = 1, shares = None, occupancy_count = None, is_active = True\<rparr>,
       \<lparr>unit_id = 3, unit_building_id = 1, shares = None, occupancy_count = None, is_active = True\<rparr>]"
        and rows = "[]" and float_of = "\<lambda>d. d"
        and clock = "\<lambda>n. if n = 0 then ''t0'' else if n = 1 then ''t1'' else ''t2''"]
    by (simp add: denominator_positive_def unit_amount_def active_units_def unit_columns_ok_def
        numeric_12_2_def hundred_by_three third_to_cents)
  have second: "generate_allocations (\<lambda>d. d) (\<lambda>n. if n = 0 then ''t0'' else if n = 1 then ''t1'' else ''t2'')
      [\<lparr>unit_id = 1, unit_building_id = 1, shares = None, occupancy_count = None, is_active = True\<rparr>,
       \<lparr>unit_id = 2, unit_building_id = 1, shares = None, occupancy_count = None, is_active = True\<rparr>,
       \<lparr>unit_id = 3, unit_building_id = 1, shares = None, occupancy_count = None, is_active = True\<rparr>]
      [\<lparr>ea_expense_id = 5, ea_unit_id = 1, ea_amount = Decimal False 3333 (- 2),
           formula_snapshot = \<lparr>fs_method = ''per_unit'', fs_total_amount = Decimal False 10000 (- 2),
             fs_calculation_date = ''t0''\<rparr>\<rparr>,
         \<lparr>ea_expense_id = 5, ea_unit_id = 2, ea_amount = Decimal False 3333 (- 2),
           formula_snapshot = \<lparr>fs_method = ''per_unit'', fs_total_amount = Decimal False 10000 (- 2),
             fs_calculation_date = ''t1''\<rparr>\<rparr>,
         \<lparr>ea_expense_id = 5, ea_unit_id = 3, ea_amount = Decimal False 3333 (- 2),
           formula_snapshot = \<lparr>fs_method = ''per_unit'', fs_total_amount = Decimal False 10000 (- 2),
             fs_calculation_date = ''t2''\<rparr>\<rparr>]
      \<lparr>exp_id = 5, exp_building_id = 1,
        category = \<lparr>cat_id = 1, cat_building_id = 1, code = ''lift'', allocation_method = PER_UNIT\<rparr>,
        exp_period = 0, amount_total = Decimal False 10000 (- 2), is_allocated = True,
        is_invoiced = False\<rparr>
     = Inr (False,
        \<lparr>exp_id = 5, exp_building_id = 1,
        category = \<lparr>cat_id = 1, cat_building_id = 1, code = ''lift'', allocation_method = PER_UNIT\<rparr>,
        exp_period = 0, amount_total = Decimal False 10000 (- 2), is_allocated = True,
        is_invoiced = False\<rparr>,
        [\<lparr>ea_expense_id = 5, ea_unit_id = 1, ea_amount = Decimal False 3333 (- 2),
           formula_snapshot = \<lparr>fs_method = ''per_unit'', fs_total_amount = Decimal False 10000 (- 2),
             fs_calculation_date = ''t0''\<rparr>\<rparr>,
         \<lparr>ea_expense_id = 5, ea_unit_id = 2, ea_amount = Decimal False 3333 (- 2),
           formula_snapshot = \<lparr>fs_method = ''per_unit'', fs_total_amount = Decimal False 10000 (- 2),
             fs_calculation_date = ''t1''\<rparr>\<rparr>,
         \<lparr>ea_expense_id = 5, ea_unit_id = 3, ea_amount = Decimal False 3333 (- 2),
           formula_snapshot = \<lparr>fs_method = ''per_unit'', fs_total_amount = Decimal False 10000 (- 2),
             fs_calculation_date = ''t2''\<rparr>\<rparr>])"
    using generate_allocations_one_shot [where self = "\<lparr>exp_id = 5, exp_building_id = 1,
        category = \<lparr>cat_id = 1, cat_building_id = 1, code = ''lift'', allocation_method = PER_UNIT\<rparr>,
        exp_period = 0, amount_total = Decimal False 10000 (- 2), is_allocated = True,
        is_invoiced = False\<rparr>"
        and table = "[\<lparr>unit_id = 1, unit_building_id = 1, shares = None, occupancy_count = None, is_active = True\<rparr>,
       \<lparr>unit_id = 2, unit_building_id = 1, shares = None, occupancy_count = None, is_active = True\<rparr>,
       \<lparr>unit_id = 3, unit_building_id = 1, shares = None, occupancy_count = None, is_active = True\<rparr>]"
        and rows = "[\<lparr>ea_expense_id = 5, ea_unit_id = 1, ea_amount = Decimal False 3333 (- 2),
           formula_snapshot = \<lparr>fs_method = ''per_unit'', fs_total_amount = Decimal False 10000 (- 2),
             fs_calculation_date = ''t0''\<rparr>\<rparr>,
         \<lparr>ea_expense_id = 5, ea_unit_id = 2, ea_amount = Decimal False 3333 (- 2),
           formula_snapshot = \<lparr>fs_method = ''per_unit'', fs_total_amount = Decimal False 10000 (- 2),
             fs_calculation_date = ''t1''\<rparr>\<rparr>,
         \<lparr>ea_expense_id = 5, ea_unit_id = 3, ea_amount = Decimal False 3333 (- 2),
           formula_snapshot = \<lparr>fs_method = ''per_unit'', fs_total_amount = Decimal False 10000 (- 2),
             fs_calculation_date = ''t2''\<rparr>\<rparr>]" and float_of = "\<lambda>d. d"
        and clock = "\<lambda>n. if n = 0 then ''t0'' else if n = 1 then ''t1'' else ''t2''"]
    by simp
  have "numeric_12_2 (Decimal False 10000 (- 2))"
    by (simp add: numeric_12_2_def)
  then show ?thesis
    using first second by (intro conjI)
qed

end
